theory Spec2Isabelle
  imports Main
begin

section \<open>The object store as the two handlers see it\<close>

text \<open>
  Both handlers of \<^verbatim>\<open>single-account.yaml\<close> (the inline code of
  \<^verbatim>\<open>CleanUpBucketonDeleteLambda\<close> and of \<^verbatim>\<open>CopyZipsFunction\<close>) work on
  an object store through the boto3 client. The store is an external service, so it is
  given here as an explicit state: every bucket has a versioning status and the list of its
  version entries, newest entry of a key first. An entry is an object version or a delete
  marker and is identified by its key and version id; in a bucket that was never versioned
  every object is the version with id \<^verbatim>\<open>null\<close>. Keys of different names keep
  their order of arrival (the service lists keys in lexicographic order; nothing below
  depends on the order across keys). Every request of a handler to the service is
  recorded, in order, in \<open>calls\<close>.
\<close>

type_synonym bucket_name = string
type_synonym key = string

datatype version_id = NullVersion | VersionNo nat

datatype versioning = Unversioned | Enabled | Suspended

datatype entry = Version key version_id string | DeleteMarker key version_id

fun Key :: "entry \<Rightarrow> key" where
  "Key (Version k v d) = k"
| "Key (DeleteMarker k v) = k"

fun VersionId :: "entry \<Rightarrow> version_id" where
  "VersionId (Version k v d) = v"
| "VersionId (DeleteMarker k v) = v"

fun is_delete_marker :: "entry \<Rightarrow> bool" where
  "is_delete_marker (Version k v d) = False"
| "is_delete_marker (DeleteMarker k v) = True"

record bucket =
  Status :: versioning
  entries :: "entry list"

datatype call =
    ListBuckets
  | GetBucketVersioning bucket_name
  | PutBucketVersioning bucket_name versioning
  | ListObjectVersions bucket_name
  | ListObjectsV2 bucket_name
  | DeleteObject bucket_name key "version_id option"
  | CopyObject bucket_name key bucket_name key
  | DeleteObjects bucket_name "key list"

datatype exn = ClientError string | KeyError string | NameError string

record s3 =
  buckets :: "bucket_name \<rightharpoonup> bucket"
  version_counter :: nat
  calls :: "call list"

type_synonym 'a result = "(exn + 'a) \<times> s3"

definition raise :: "exn \<Rightarrow> s3 \<Rightarrow> 'a result" where
  "raise e s = (Inl e, s)"

definition return :: "'a \<Rightarrow> s3 \<Rightarrow> 'a result" where
  "return x s = (Inr x, s)"

text \<open>Sequencing of two statements: an exception of the first skips the second.\<close>

definition and_then :: "(s3 \<Rightarrow> 'a result) \<Rightarrow> ('a \<Rightarrow> s3 \<Rightarrow> 'b result) \<Rightarrow> s3 \<Rightarrow> 'b result" where
  "and_then m f s = (case m s of (Inl e, s') \<Rightarrow> (Inl e, s') | (Inr x, s') \<Rightarrow> f x s')"

text \<open>A \<^verbatim>\<open>for\<close> loop whose body may raise: the first exception ends the loop.\<close>

fun foreach :: "('a \<Rightarrow> s3 \<Rightarrow> unit result) \<Rightarrow> 'a list \<Rightarrow> s3 \<Rightarrow> unit result" where
  "foreach f [] s = (Inr (), s)"
| "foreach f (x # xs) s =
     (case f x s of (Inl e, s') \<Rightarrow> (Inl e, s') | (Inr u, s') \<Rightarrow> foreach f xs s')"

definition api :: "call \<Rightarrow> s3 \<Rightarrow> s3" where
  "api c s = s\<lparr>calls := calls s @ [c]\<rparr>"

definition set_bucket :: "bucket_name \<Rightarrow> bucket \<Rightarrow> s3 \<Rightarrow> s3" where
  "set_bucket b bk s = s\<lparr>buckets := (buckets s)(b \<mapsto> bk)\<rparr>"

subsection \<open>Entries of one bucket\<close>

definition remove_version :: "key \<Rightarrow> version_id \<Rightarrow> entry list \<Rightarrow> entry list" where
  "remove_version k v es = filter (\<lambda>e. \<not> (Key e = k \<and> VersionId e = v)) es"

text \<open>A new entry becomes the newest one of its key.\<close>

fun insert_newest :: "entry \<Rightarrow> entry list \<Rightarrow> entry list" where
  "insert_newest e [] = [e]"
| "insert_newest e (x # xs) = (if Key x = Key e then e # x # xs else x # insert_newest e xs)"

text \<open>The object a plain read of key \<open>k\<close> returns: its newest entry, unless that is a delete marker.\<close>

definition current_object :: "key \<Rightarrow> entry list \<Rightarrow> string option" where
  "current_object k es =
     (case find (\<lambda>e. Key e = k) es of
        Some (Version k' v d) \<Rightarrow> Some d
      | Some (DeleteMarker k' v) \<Rightarrow> None
      | None \<Rightarrow> None)"

text \<open>What the plain object listing shows: the keys whose newest entry is an object.\<close>

definition contents :: "entry list \<Rightarrow> entry list" where
  "contents es = filter (\<lambda>e. \<not> is_delete_marker e \<and> find (\<lambda>x. Key x = Key e) es = Some e) es"

text \<open>Writing an object: with versioning enabled a new version, otherwise the \<^verbatim>\<open>null\<close> version is replaced.\<close>

definition put_entry :: "versioning \<Rightarrow> key \<Rightarrow> string \<Rightarrow> nat \<Rightarrow> entry list \<Rightarrow> entry list \<times> nat" where
  "put_entry st k d n es =
     (if st = Enabled then (insert_newest (Version k (VersionNo n) d) es, Suc n)
      else (insert_newest (Version k NullVersion d) (remove_version k NullVersion es), n))"

text \<open>
  Deleting a key without a version id: in a never-versioned bucket the object goes; with
  versioning enabled a delete marker is added; with versioning suspended the \<^verbatim>\<open>null\<close>
  version is replaced by a delete marker.
\<close>

definition delete_key :: "versioning \<Rightarrow> key \<Rightarrow> nat \<Rightarrow> entry list \<Rightarrow> entry list \<times> nat" where
  "delete_key st k n es =
     (case st of
        Unversioned \<Rightarrow> (remove_version k NullVersion es, n)
      | Enabled \<Rightarrow> (insert_newest (DeleteMarker k (VersionNo n)) es, Suc n)
      | Suspended \<Rightarrow> (insert_newest (DeleteMarker k NullVersion) (remove_version k NullVersion es), n))"

fun delete_keys :: "versioning \<Rightarrow> key list \<Rightarrow> nat \<Rightarrow> entry list \<Rightarrow> entry list \<times> nat" where
  "delete_keys st [] n es = (es, n)"
| "delete_keys st (k # ks) n es = (case delete_key st k n es of (es', n') \<Rightarrow> delete_keys st ks n' es')"

subsection \<open>The requests the handlers make\<close>

text \<open>
  \<^verbatim>\<open>s3.Bucket(name).load()\<close> asks for the list of buckets. boto3 returns silently when
  the name is not in that list; \<open>strict\<close> stands for a client that raises
  \<^verbatim>\<open>ClientError\<close> there, which is what the handler's \<^verbatim>\<open>except\<close> clause expects.
  The theorems hold for both.
\<close>

definition bucket_load :: "bool \<Rightarrow> bucket_name \<Rightarrow> s3 \<Rightarrow> unit result" where
  "bucket_load strict b s =
     (if strict \<and> buckets s b = None then (Inl (ClientError ''404''), api ListBuckets s)
      else (Inr (), api ListBuckets s))"

definition get_bucket_versioning :: "bucket_name \<Rightarrow> s3 \<Rightarrow> versioning result" where
  "get_bucket_versioning b s =
     (case buckets s b of
        None \<Rightarrow> (Inl (ClientError ''NoSuchBucket''), api (GetBucketVersioning b) s)
      | Some bk \<Rightarrow> (Inr (Status bk), api (GetBucketVersioning b) s))"

definition put_bucket_versioning :: "bucket_name \<Rightarrow> versioning \<Rightarrow> s3 \<Rightarrow> unit result" where
  "put_bucket_versioning b v s =
     (case buckets s b of
        None \<Rightarrow> (Inl (ClientError ''NoSuchBucket''), api (PutBucketVersioning b v) s)
      | Some bk \<Rightarrow> (Inr (), set_bucket b (bk\<lparr>Status := v\<rparr>) (api (PutBucketVersioning b v) s)))"

text \<open>
  \<^verbatim>\<open>delete_object\<close>: with a version id exactly that entry is removed for good (also the
  \<^verbatim>\<open>null\<close> version of a never-versioned bucket); an entry that is not there is no error.
\<close>

definition delete_object :: "bucket_name \<Rightarrow> key \<Rightarrow> version_id option \<Rightarrow> s3 \<Rightarrow> unit result" where
  "delete_object b k vo s =
     (case buckets s b of
        None \<Rightarrow> (Inl (ClientError ''NoSuchBucket''), api (DeleteObject b k vo) s)
      | Some bk \<Rightarrow>
          (case vo of
             Some v \<Rightarrow>
               (Inr (), set_bucket b (bk\<lparr>entries := remove_version k v (entries bk)\<rparr>)
                          (api (DeleteObject b k vo) s))
           | None \<Rightarrow>
               (case delete_key (Status bk) k (version_counter s) (entries bk) of
                  (es, n) \<Rightarrow>
                    (Inr (), set_bucket b (bk\<lparr>entries := es\<rparr>)
                               ((api (DeleteObject b k vo) s)\<lparr>version_counter := n\<rparr>)))))"

text \<open>
  \<^verbatim>\<open>copy_object\<close> reads the current object of the source key and writes it to the
  destination key. The service refuses a copy of an object onto itself.
\<close>

definition copy_object :: "bucket_name \<Rightarrow> key \<Rightarrow> bucket_name \<Rightarrow> key \<Rightarrow> s3 \<Rightarrow> unit result" where
  "copy_object sb sk db dk s =
     (case buckets s sb of
        None \<Rightarrow> (Inl (ClientError ''NoSuchBucket''), api (CopyObject sb sk db dk) s)
      | Some src \<Rightarrow>
          (case current_object sk (entries src) of
             None \<Rightarrow> (Inl (ClientError ''NoSuchKey''), api (CopyObject sb sk db dk) s)
           | Some d \<Rightarrow>
               (case buckets s db of
                  None \<Rightarrow> (Inl (ClientError ''NoSuchBucket''), api (CopyObject sb sk db dk) s)
                | Some dst \<Rightarrow>
                    if sb = db \<and> sk = dk
                    then (Inl (ClientError ''InvalidRequest''), api (CopyObject sb sk db dk) s)
                    else (case put_entry (Status dst) dk d (version_counter s) (entries dst) of
                            (es, n) \<Rightarrow>
                              (Inr (), set_bucket db (dst\<lparr>entries := es\<rparr>)
                                         ((api (CopyObject sb sk db dk) s)\<lparr>version_counter := n\<rparr>))))))"

text \<open>
  The batch request \<^verbatim>\<open>delete_objects\<close> of the client: one request carries the whole
  key list, between 1 and 1000 keys; a key that is not there is no error.
\<close>

definition s3_delete_objects :: "bucket_name \<Rightarrow> key list \<Rightarrow> s3 \<Rightarrow> unit result" where
  "s3_delete_objects b ks s =
     (case buckets s b of
        None \<Rightarrow> (Inl (ClientError ''NoSuchBucket''), api (DeleteObjects b ks) s)
      | Some bk \<Rightarrow>
          if ks = [] \<or> 1000 < length ks
          then (Inl (ClientError ''MalformedXML''), api (DeleteObjects b ks) s)
          else (case delete_keys (Status bk) ks (version_counter s) (entries bk) of
                  (es, n) \<Rightarrow>
                    (Inr (), set_bucket b (bk\<lparr>entries := es\<rparr>)
                               ((api (DeleteObjects b ks) s)\<lparr>version_counter := n\<rparr>))))"

subsection \<open>Paginators\<close>

text \<open>
  A listing comes in pages of at most \<open>max_keys\<close> entries, and there is always a first
  page. A paginator asks for a page when the loop reaches it; the entries behind the
  continuation marker are not touched by the deletions of the pages before, so the pages
  are those of the listing at the start of the loop.
\<close>

definition max_keys :: nat where
  "max_keys = 1000"

function chunks :: "nat \<Rightarrow> 'a list \<Rightarrow> 'a list list" where
  "chunks n xs = (if n = 0 \<or> xs = [] then [] else take n xs # chunks n (drop n xs))"
  by pat_completeness auto
termination
  by (relation "measure (\<lambda>(n, xs). length xs)") auto

declare chunks.simps [simp del]

definition pages :: "'a list \<Rightarrow> 'a list list" where
  "pages xs = (if xs = [] then [[]] else chunks max_keys xs)"

section \<open>BucketDrainer: \<^verbatim>\<open>empty_bucket\<close> and \<^verbatim>\<open>lambda_handler\<close>\<close>

text \<open>The two inner loops over one page of the version listing: delete markers first, then versions.\<close>

definition delete_listed :: "bucket_name \<Rightarrow> entry list \<Rightarrow> s3 \<Rightarrow> unit result" where
  "delete_listed bucket_name es =
     foreach (\<lambda>e. delete_object bucket_name (Key e) (Some (VersionId e))) es"

definition drain_version_page :: "bucket_name \<Rightarrow> entry list \<Rightarrow> s3 \<Rightarrow> unit result" where
  "drain_version_page bucket_name page s =
     and_then (delete_listed bucket_name (filter is_delete_marker page))
       (\<lambda>u. delete_listed bucket_name (filter (\<lambda>e. \<not> is_delete_marker e) page))
       (api (ListObjectVersions bucket_name) s)"

definition drain_versions :: "bucket_name \<Rightarrow> s3 \<Rightarrow> unit result" where
  "drain_versions bucket_name s =
     (case buckets s bucket_name of
        None \<Rightarrow> (Inl (ClientError ''NoSuchBucket''), api (ListObjectVersions bucket_name) s)
      | Some bk \<Rightarrow> foreach (drain_version_page bucket_name) (pages (entries bk)) s)"

definition drain_object_page :: "bucket_name \<Rightarrow> entry list \<Rightarrow> s3 \<Rightarrow> unit result" where
  "drain_object_page bucket_name page s =
     foreach (\<lambda>content. delete_object bucket_name (Key content) None) page
       (api (ListObjectsV2 bucket_name) s)"

definition drain_objects :: "bucket_name \<Rightarrow> s3 \<Rightarrow> unit result" where
  "drain_objects bucket_name s =
     (case buckets s bucket_name of
        None \<Rightarrow> (Inl (ClientError ''NoSuchBucket''), api (ListObjectsV2 bucket_name) s)
      | Some bk \<Rightarrow> foreach (drain_object_page bucket_name) (pages (contents (entries bk))) s)"

text \<open>
  \<^verbatim>\<open>empty_bucket(bucket_name)\<close>. The module imports \<^verbatim>\<open>json\<close>, \<^verbatim>\<open>boto3\<close> and
  \<^verbatim>\<open>urllib3\<close> only, so when \<^verbatim>\<open>load()\<close> raises, evaluating the name in
  \<^verbatim>\<open>except ClientError:\<close> raises \<^verbatim>\<open>NameError\<close> in its place.
\<close>

definition empty_bucket :: "bool \<Rightarrow> bucket_name \<Rightarrow> s3 \<Rightarrow> unit result" where
  "empty_bucket strict bucket_name s =
     (case bucket_load strict bucket_name s of
        (Inl e, s') \<Rightarrow> (Inl (NameError ''ClientError''), s')
      | (Inr u, s') \<Rightarrow>
          and_then (get_bucket_versioning bucket_name)
            (\<lambda>status.
               and_then (if status = Enabled
                         then put_bucket_versioning bucket_name Suspended
                         else return ())
                 (\<lambda>u. and_then (drain_versions bucket_name)
                         (\<lambda>u. drain_objects bucket_name))) s')"

section \<open>Events, responses and the handlers\<close>

text \<open>
  A key of \<^verbatim>\<open>event['ResourceProperties']\<close> that is absent is \<open>None\<close>; the
  orchestrator passes property values as strings and lists of strings, and always fills
  the request type, the three identifiers and the callback address. The HTTP PUT to the
  callback address is taken to go through, so sending a response raises nothing.
\<close>

record resource_properties =
  SourceBucket :: "string option"
  DestBucket :: "string option"
  Prefix :: "string option"
  Objects :: "string list option"
  inputBucketName :: "string option"

record event =
  RequestType :: string
  ResourceProperties :: resource_properties
  StackId :: string
  RequestId :: string
  LogicalResourceId :: string
  ResponseURL :: string

record lambda_context =
  log_stream_name :: string
  get_remaining_time_in_millis :: nat

datatype status = SUCCESS | FAILED

text \<open>The body of the HTTP PUT and the address it goes to (\<^verbatim>\<open>Data\<close> is always empty).\<close>

record response =
  put_url :: string
  body_Status :: status
  body_Reason :: string
  body_PhysicalResourceId :: string
  body_StackId :: string
  body_RequestId :: string
  body_LogicalResourceId :: string

text \<open>
  What one invocation leaves behind: the responses delivered to the callback address in
  order, the exceptions written to the log, and the object store.
\<close>

record invocation =
  responses :: "response list"
  logged :: "exn list"
  store :: s3

definition sendResponse :: "event \<Rightarrow> lambda_context \<Rightarrow> status \<Rightarrow> response" where
  "sendResponse event context st =
     \<lparr>put_url = ResponseURL event,
      body_Status = st,
      body_Reason = ''Log stream name: '' @ log_stream_name context,
      body_PhysicalResourceId = log_stream_name context,
      body_StackId = StackId event,
      body_RequestId = RequestId event,
      body_LogicalResourceId = LogicalResourceId event\<rparr>"

text \<open>The statements of \<^verbatim>\<open>lambda_handler\<close> between \<^verbatim>\<open>try:\<close> and the response.\<close>

definition lambda_handler_try :: "bool \<Rightarrow> event \<Rightarrow> s3 \<Rightarrow> unit result" where
  "lambda_handler_try strict event =
     (case inputBucketName (ResourceProperties event) of
        None \<Rightarrow> raise (KeyError ''inputBucketName'')
      | Some bucket \<Rightarrow>
          if RequestType event = ''Delete'' then empty_bucket strict bucket else return ())"

definition lambda_handler :: "bool \<Rightarrow> event \<Rightarrow> lambda_context \<Rightarrow> s3 \<Rightarrow> invocation" where
  "lambda_handler strict event context s =
     (case lambda_handler_try strict event s of
        (Inr u, s') \<Rightarrow>
          \<lparr>responses = [sendResponse event context SUCCESS], logged = [], store = s'\<rparr>
      | (Inl e, s') \<Rightarrow>
          \<lparr>responses = [sendResponse event context FAILED], logged = [e], store = s'\<rparr>)"

section \<open>ObjectCopier: \<^verbatim>\<open>copy_objects\<close>, \<^verbatim>\<open>delete_objects\<close> and \<^verbatim>\<open>handler\<close>\<close>

definition copy_objects :: "bucket_name \<Rightarrow> bucket_name \<Rightarrow> string \<Rightarrow> string list \<Rightarrow> s3 \<Rightarrow> unit result" where
  "copy_objects source_bucket dest_bucket prefix objects =
     foreach (\<lambda>name. copy_object source_bucket (prefix @ name) dest_bucket (prefix @ name)) objects"

definition delete_objects :: "bucket_name \<Rightarrow> string \<Rightarrow> string list \<Rightarrow> s3 \<Rightarrow> unit result" where
  "delete_objects bucket prefix objects =
     s3_delete_objects bucket (map (\<lambda>name. prefix @ name) objects)"

text \<open>
  \<^verbatim>\<open>cfnresponse.send(event, context, status, {}, None)\<close> of the platform's response
  module: no reason and no physical id are passed, so both come from the log stream name.
\<close>

definition cfnresponse_send :: "event \<Rightarrow> lambda_context \<Rightarrow> status \<Rightarrow> response" where
  "cfnresponse_send event context st =
     \<lparr>put_url = ResponseURL event,
      body_Status = st,
      body_Reason = ''See the details in CloudWatch Log Stream: '' @ log_stream_name context,
      body_PhysicalResourceId = log_stream_name context,
      body_StackId = StackId event,
      body_RequestId = RequestId event,
      body_LogicalResourceId = LogicalResourceId event\<rparr>"


text \<open>The statements of \<^verbatim>\<open>handler\<close> between \<^verbatim>\<open>try:\<close> and \<^verbatim>\<open>except\<close>.\<close>

definition handler_try :: "event \<Rightarrow> s3 \<Rightarrow> unit result" where
  "handler_try event =
     (case SourceBucket (ResourceProperties event) of
        None \<Rightarrow> raise (KeyError ''SourceBucket'')
      | Some source_bucket \<Rightarrow>
     (case DestBucket (ResourceProperties event) of
        None \<Rightarrow> raise (KeyError ''DestBucket'')
      | Some dest_bucket \<Rightarrow>
     (case Prefix (ResourceProperties event) of
        None \<Rightarrow> raise (KeyError ''Prefix'')
      | Some prefix \<Rightarrow>
     (case Objects (ResourceProperties event) of
        None \<Rightarrow> raise (KeyError ''Objects'')
      | Some objects \<Rightarrow>
          if RequestType event = ''Delete''
          then delete_objects dest_bucket prefix objects
          else copy_objects source_bucket dest_bucket prefix objects))))"

text \<open>
  \<^verbatim>\<open>handler\<close> when its \<^verbatim>\<open>finally\<close> clause cancels the timer before the timer
  runs: the one response is that of the \<^verbatim>\<open>finally\<close> clause.
\<close>

definition handler :: "event \<Rightarrow> lambda_context \<Rightarrow> s3 \<Rightarrow> invocation" where
  "handler event context s =
     (case handler_try event s of
        (Inr u, s') \<Rightarrow>
          \<lparr>responses = [cfnresponse_send event context SUCCESS], logged = [], store = s'\<rparr>
      | (Inl e, s') \<Rightarrow>
          \<lparr>responses = [cfnresponse_send event context FAILED], logged = [e], store = s'\<rparr>)"

section \<open>The time budget of an invocation\<close>




section \<open>Notions used in the statements\<close>

text \<open>
  The requests a run has made are those its final store records beyond those of its initial
  store. \<open>page_calls\<close> and \<open>drain_calls\<close> spell out the requests of one page of the version
  listing and of a whole run of \<^verbatim>\<open>empty_bucket\<close>; \<open>keys_of\<close> are the keys prefix + name
  of a request; \<open>reported\<close> is the status a handler answers for what its \<^verbatim>\<open>try\<close> block
  did.
\<close>

definition calls_made :: "s3 \<Rightarrow> s3 \<Rightarrow> call list" where
  "calls_made s s' = drop (length (calls s)) (calls s')"

definition is_deletion :: "call \<Rightarrow> bool" where
  "is_deletion c = (case c of DeleteObject b k v \<Rightarrow> True | DeleteObjects b ks \<Rightarrow> True | _ \<Rightarrow> False)"

definition version_call :: "bucket_name \<Rightarrow> entry \<Rightarrow> call" where
  "version_call b e = DeleteObject b (Key e) (Some (VersionId e))"

definition page_calls :: "bucket_name \<Rightarrow> entry list \<Rightarrow> call list" where
  "page_calls b page =
     ListObjectVersions b # map (version_call b) (filter is_delete_marker page)
       @ map (version_call b) (filter (\<lambda>e. \<not> is_delete_marker e) page)"

definition drain_calls :: "bucket_name \<Rightarrow> bucket \<Rightarrow> call list" where
  "drain_calls b bk =
     [ListBuckets, GetBucketVersioning b]
     @ (if Status bk = Enabled then [PutBucketVersioning b Suspended] else [])
     @ concat (map (page_calls b) (pages (entries bk)))
     @ [ListObjectsV2 b]"

definition copy_call :: "bucket_name \<Rightarrow> bucket_name \<Rightarrow> string \<Rightarrow> string \<Rightarrow> call" where
  "copy_call source_bucket dest_bucket prefix name =
     CopyObject source_bucket (prefix @ name) dest_bucket (prefix @ name)"

definition keys_of :: "string \<Rightarrow> string list \<Rightarrow> key list" where
  "keys_of prefix objects = map (\<lambda>name. prefix @ name) objects"

definition reported :: "unit result \<Rightarrow> status" where
  "reported r = (case fst r of Inr u \<Rightarrow> SUCCESS | Inl e \<Rightarrow> FAILED)"

text \<open>
  An entry is identified by key and version id. \<open>drained\<close> is the store once the listed
  entries of a bucket were deleted for good, \<open>emptied\<close> a bucket after a whole drain,
  \<open>outside\<close> what a bucket holds under keys other than the given ones, and
  \<open>without_null\<close> its entries without the \<^verbatim>\<open>null\<close> versions of the given keys.
\<close>

definition ident :: "entry \<Rightarrow> key \<times> version_id" where
  "ident e = (Key e, VersionId e)"

definition drained :: "bucket_name \<Rightarrow> bucket \<Rightarrow> entry list \<Rightarrow> call list \<Rightarrow> s3 \<Rightarrow> s3" where
  "drained b bk es cs s =
     s\<lparr>buckets := (buckets s)(b \<mapsto> bk\<lparr>entries := filter (\<lambda>e. ident e \<notin> ident ` set es) (entries bk)\<rparr>),
       calls := calls s @ cs\<rparr>"

definition emptied :: "bucket \<Rightarrow> bucket" where
  "emptied bk = bk\<lparr>Status := (if Status bk = Enabled then Suspended else Status bk), entries := []\<rparr>"

definition outside :: "key set \<Rightarrow> bucket \<Rightarrow> versioning \<times> entry list" where
  "outside K bk = (Status bk, filter (\<lambda>e. Key e \<notin> K) (entries bk))"

definition without_null :: "key set \<Rightarrow> entry list \<Rightarrow> entry list" where
  "without_null K es = filter (\<lambda>e. \<not> (Key e \<in> K \<and> VersionId e = NullVersion)) es"

text \<open>
  A store and events to run the handlers on: a source with two scripts, a destination that
  already holds one of them, an empty destination, and a bucket with versioning enabled
  that holds two versions and a delete marker.
\<close>

definition example_store :: s3 where
  "example_store =
     \<lparr>buckets =
        [''src'' \<mapsto> \<lparr>Status = Unversioned,
                      entries = [Version ''p/a'' NullVersion ''A'', Version ''p/b'' NullVersion ''B'']\<rparr>,
         ''dst'' \<mapsto> \<lparr>Status = Unversioned, entries = [Version ''p/a'' NullVersion ''old'']\<rparr>,
         ''new'' \<mapsto> \<lparr>Status = Unversioned, entries = []\<rparr>,
         ''ver'' \<mapsto> \<lparr>Status = Enabled,
                      entries = [DeleteMarker ''k'' (VersionNo 7), Version ''k'' (VersionNo 5) ''x'',
                                 Version ''j'' (VersionNo 3) ''y'']\<rparr>],
      version_counter = 8,
      calls = []\<rparr>"

definition example_context :: lambda_context where
  "example_context = \<lparr>log_stream_name = ''stream'', get_remaining_time_in_millis = 60000\<rparr>"

definition example_event :: "string \<Rightarrow> string \<Rightarrow> string \<Rightarrow> event" where
  "example_event request_type dest drained_bucket =
     \<lparr>RequestType = request_type,
      ResourceProperties =
        \<lparr>SourceBucket = Some ''src'', DestBucket = Some dest, Prefix = Some ''p/'',
         Objects = Some [''a'', ''b''], inputBucketName = Some drained_bucket\<rparr>,
      StackId = ''stack'', RequestId = ''request'', LogicalResourceId = ''resource'',
      ResponseURL = ''https://callback''\<rparr>"

definition example_event_without :: event where
  "example_event_without =
     \<lparr>RequestType = ''Create'',
      ResourceProperties =
        \<lparr>SourceBucket = Some ''src'', DestBucket = Some ''dst'', Prefix = Some ''p/'',
         Objects = None, inputBucketName = None\<rparr>,
      StackId = ''stack'', RequestId = ''request'', LogicalResourceId = ''resource'',
      ResponseURL = ''https://callback''\<rparr>"

definition example_event_missing :: event where
  "example_event_missing =
     \<lparr>RequestType = ''Create'',
      ResourceProperties =
        \<lparr>SourceBucket = Some ''src'', DestBucket = Some ''new'', Prefix = Some ''p/'',
         Objects = Some [''a'', ''zz'', ''b''], inputBucketName = None\<rparr>,
      StackId = ''stack'', RequestId = ''request'', LogicalResourceId = ''resource'',
      ResponseURL = ''https://callback''\<rparr>"

section \<open>Draining a bucket\<close>

lemma drained_lookup:
  "buckets (drained b bk es cs s) b = Some (bk\<lparr>entries := filter (\<lambda>e. ident e \<notin> ident ` set es) (entries bk)\<rparr>)"
  by (simp add: drained_def)

lemma drained_nil: "buckets s b = Some bk \<Longrightarrow> drained b bk [] [] s = s"
  by (simp add: drained_def fun_upd_idem)

lemma drained_drained:
  "drained b (bk\<lparr>entries := filter (\<lambda>e. ident e \<notin> ident ` set es) (entries bk)\<rparr>) fs ds (drained b bk es cs s)
     = drained b bk (es @ fs) (cs @ ds) s"
  by (simp add: drained_def image_Un)

lemma delete_version_drained:
  assumes "buckets s b = Some bk"
  shows "delete_object b (Key e) (Some (VersionId e)) s = (Inr (), drained b bk [e] [version_call b e] s)"
  using assms
  by (simp add: delete_object_def drained_def set_bucket_def api_def remove_version_def
        version_call_def ident_def prod_eq_iff)

lemma delete_listed_drained:
  "buckets s b = Some bk \<Longrightarrow>
   delete_listed b es s = (Inr (), drained b bk es (map (version_call b) es) s)"
proof (induction es arbitrary: s bk)
  case Nil
  then show ?case by (simp add: delete_listed_def drained_nil)
next
  case (Cons e es)
  let ?bk = "bk\<lparr>entries := filter (\<lambda>x. ident x \<notin> ident ` set [e]) (entries bk)\<rparr>"
  let ?s = "drained b bk [e] [version_call b e] s"
  have look: "buckets ?s b = Some ?bk" by (rule drained_lookup)
  have "delete_listed b (e # es) s = delete_listed b es ?s"
    using Cons.prems by (simp add: delete_listed_def delete_version_drained)
  also have "\<dots> = (Inr (), drained b ?bk es (map (version_call b) es) ?s)"
    by (rule Cons.IH [OF look])
  also have "drained b ?bk es (map (version_call b) es) ?s
               = drained b bk (e # es) (map (version_call b) (e # es)) s"
    using drained_drained [where es = "[e]" and fs = es and cs = "[version_call b e]"] by simp
  finally show ?case .
qed

lemma drained_api: "drained b bk es cs (api c s) = drained b bk es (c # cs) s"
  by (simp add: api_def drained_def)

lemma buckets_api: "buckets (api c s) = buckets s"
  by (simp add: api_def)

lemma ident_split_page:
  "ident ` set (filter is_delete_marker page @ filter (\<lambda>e. \<not> is_delete_marker e) page) = ident ` set page"
  by auto

lemma drained_cong_set:
  "ident ` set es = ident ` set fs \<Longrightarrow> drained b bk es cs s = drained b bk fs cs s"
  by (simp add: drained_def)

lemma drain_version_page_drained:
  assumes "buckets s b = Some bk"
  shows "drain_version_page b page s = (Inr (), drained b bk page (page_calls b page) s)"
proof -
  let ?ms = "filter is_delete_marker page"
  let ?vs = "filter (\<lambda>e. \<not> is_delete_marker e) page"
  let ?s0 = "api (ListObjectVersions b) s"
  let ?s1 = "drained b bk ?ms (map (version_call b) ?ms) ?s0"
  let ?bk1 = "bk\<lparr>entries := filter (\<lambda>e. ident e \<notin> ident ` set ?ms) (entries bk)\<rparr>"
  have b0: "buckets ?s0 b = Some bk" using assms by (simp add: buckets_api)
  have m: "delete_listed b ?ms ?s0 = (Inr (), ?s1)"
    by (rule delete_listed_drained [OF b0])
  have b1: "buckets ?s1 b = Some ?bk1" by (rule drained_lookup)
  have v: "delete_listed b ?vs ?s1 = (Inr (), drained b ?bk1 ?vs (map (version_call b) ?vs) ?s1)"
    by (rule delete_listed_drained [OF b1])
  have "drain_version_page b page s = delete_listed b ?vs ?s1"
    by (simp add: drain_version_page_def and_then_def m)
  also have "\<dots> = (Inr (), drained b bk (?ms @ ?vs) (map (version_call b) ?ms @ map (version_call b) ?vs) ?s0)"
    by (simp only: v drained_drained)
  also have "drained b bk (?ms @ ?vs) (map (version_call b) ?ms @ map (version_call b) ?vs) ?s0
             = drained b bk page (map (version_call b) ?ms @ map (version_call b) ?vs) ?s0"
    by (rule drained_cong_set) (rule ident_split_page)
  also have "\<dots> = drained b bk page (page_calls b page) s"
    by (simp add: drained_api page_calls_def)
  finally show ?thesis .
qed

lemma drain_version_pages_drained:
  "buckets s b = Some bk \<Longrightarrow>
   foreach (drain_version_page b) ps s
     = (Inr (), drained b bk (concat ps) (concat (map (page_calls b) ps)) s)"
proof (induction ps arbitrary: s bk)
  case Nil
  then show ?case by (simp add: drained_nil)
next
  case (Cons p ps)
  let ?s = "drained b bk p (page_calls b p) s"
  let ?bk = "bk\<lparr>entries := filter (\<lambda>e. ident e \<notin> ident ` set p) (entries bk)\<rparr>"
  have look: "buckets ?s b = Some ?bk" by (rule drained_lookup)
  have "foreach (drain_version_page b) (p # ps) s = foreach (drain_version_page b) ps ?s"
    using Cons.prems by (simp add: drain_version_page_drained)
  also have "\<dots> = (Inr (), drained b ?bk (concat ps) (concat (map (page_calls b) ps)) ?s)"
    by (rule Cons.IH [OF look])
  finally show ?case by (simp add: drained_drained)
qed

lemma concat_chunks: "0 < n \<Longrightarrow> concat (chunks n xs) = xs"
proof (induction n xs rule: chunks.induct)
  case (1 n xs)
  show ?case
  proof (cases "xs = []")
    case True
    then show ?thesis by (subst chunks.simps) simp
  next
    case False
    with "1.prems" have "chunks n xs = take n xs # chunks n (drop n xs)"
      by (subst chunks.simps) simp
    moreover from "1.IH" "1.prems" False have "concat (chunks n (drop n xs)) = drop n xs" by simp
    ultimately show ?thesis by simp
  qed
qed

lemma concat_pages: "concat (pages xs) = xs"
  by (simp add: pages_def max_keys_def concat_chunks)

lemma filter_all_listed: "filter (\<lambda>e. ident e \<notin> ident ` set es) es = []"
  by (induction es) auto

lemma drain_versions_empties:
  assumes "buckets s b = Some bk"
  shows "drain_versions b s
           = (Inr (), s\<lparr>buckets := (buckets s)(b \<mapsto> bk\<lparr>entries := []\<rparr>),
                        calls := calls s @ concat (map (page_calls b) (pages (entries bk)))\<rparr>)"
  using assms
  by (simp add: drain_versions_def drain_version_pages_drained concat_pages drained_def
        filter_all_listed)

lemma contents_nil: "contents [] = []"
  by (simp add: contents_def)

lemma drain_objects_of_empty:
  assumes "buckets s b = Some bk" and "entries bk = []"
  shows "drain_objects b s = (Inr (), api (ListObjectsV2 b) s)"
  using assms
  by (simp add: drain_objects_def contents_nil pages_def drain_object_page_def)

lemma empty_bucket_existing:
  assumes "buckets s b = Some bk"
  shows "empty_bucket strict b s
           = (Inr (), s\<lparr>buckets := (buckets s)(b \<mapsto> emptied bk), calls := calls s @ drain_calls b bk\<rparr>)"
proof -
  let ?s1 = "api (GetBucketVersioning b) (api ListBuckets s)"
  define bk2 where "bk2 = (if Status bk = Enabled then bk\<lparr>Status := Suspended\<rparr> else bk)"
  define s2 where "s2 = (if Status bk = Enabled
      then set_bucket b bk2 (api (PutBucketVersioning b Suspended) ?s1) else ?s1)"
  define s3 where "s3 = s2\<lparr>buckets := (buckets s2)(b \<mapsto> bk2\<lparr>entries := []\<rparr>),
                     calls := calls s2 @ concat (map (page_calls b) (pages (entries bk2)))\<rparr>"
  have b2: "buckets s2 b = Some bk2"
    using assms by (simp add: s2_def bk2_def set_bucket_def buckets_api)
  have dv: "drain_versions b s2 = (Inr (), s3)"
    unfolding s3_def by (rule drain_versions_empties [OF b2])
  have b3: "buckets s3 b = Some (bk2\<lparr>entries := []\<rparr>)"
    by (simp add: s3_def)
  have do: "drain_objects b s3 = (Inr (), api (ListObjectsV2 b) s3)"
    by (rule drain_objects_of_empty [OF b3]) simp
  have step: "(if Status bk = Enabled then put_bucket_versioning b Suspended else return ()) ?s1
                = (Inr (), s2)"
    using assms
    by (simp add: s2_def bk2_def put_bucket_versioning_def return_def buckets_api)
  have "empty_bucket strict b s = (Inr (), api (ListObjectsV2 b) s3)"
    using assms
    by (simp add: empty_bucket_def bucket_load_def and_then_def get_bucket_versioning_def
          buckets_api step dv do)
  moreover have "api (ListObjectsV2 b) s3
     = s\<lparr>buckets := (buckets s)(b \<mapsto> emptied bk), calls := calls s @ drain_calls b bk\<rparr>"
    by (simp add: s3_def s2_def bk2_def api_def set_bucket_def emptied_def drain_calls_def)
  ultimately show ?thesis by simp
qed

lemma lambda_handler_delete_existing:
  assumes "buckets s b = Some bk"
    and "RequestType event = ''Delete''"
    and "inputBucketName (ResourceProperties event) = Some b"
  shows "lambda_handler strict event context s
           = \<lparr>responses = [sendResponse event context SUCCESS], logged = [],
              store = s\<lparr>buckets := (buckets s)(b \<mapsto> emptied bk), calls := calls s @ drain_calls b bk\<rparr>\<rparr>"
  using assms by (simp add: lambda_handler_def lambda_handler_try_def empty_bucket_existing)

lemma body_Status_sendResponse: "body_Status (sendResponse event context st) = st"
  by (simp add: sendResponse_def)

text \<open>
  Claim C4. Let a bucket exist with versioning status \<^verbatim>\<open>Enabled\<close> and any entries
  (current objects, historical versions, delete markers). A \<^verbatim>\<open>Delete\<close> event for it
  is answered with \<^verbatim>\<open>SUCCESS\<close>; afterwards the bucket has no entry at all (no version,
  no delete marker, hence no current object) and its status is \<^verbatim>\<open>Suspended\<close>. The
  requests made are: load, read the status, suspend, then for every page of the version
  listing the listing request, the deletions of the page's delete markers and after them
  the deletions of the page's versions, and last the one request of the object listing.
\<close>

theorem versioned_bucket_drained:
  assumes "buckets s b = Some bk"
    and "Status bk = Enabled"
    and "RequestType event = ''Delete''"
    and "inputBucketName (ResourceProperties event) = Some b"
  shows "map body_Status (responses (lambda_handler strict event context s)) = [SUCCESS]
       \<and> buckets (store (lambda_handler strict event context s)) b = Some \<lparr>Status = Suspended, entries = []\<rparr>
       \<and> calls_made s (store (lambda_handler strict event context s))
            = [ListBuckets, GetBucketVersioning b, PutBucketVersioning b Suspended]
              @ concat (map (\<lambda>page. ListObjectVersions b
                                # map (version_call b) (filter is_delete_marker page)
                                @ map (version_call b) (filter (\<lambda>e. \<not> is_delete_marker e) page))
                            (pages (entries bk)))
              @ [ListObjectsV2 b]"
proof -
  have pc: "page_calls b = (\<lambda>page. ListObjectVersions b
                                # map (version_call b) (filter is_delete_marker page)
                                @ map (version_call b) (filter (\<lambda>e. \<not> is_delete_marker e) page))"
    by (rule ext) (simp add: page_calls_def)
  have e: "emptied bk = \<lparr>Status = Suspended, entries = []\<rparr>"
    using assms(2) by (simp add: emptied_def)
  show ?thesis
    unfolding lambda_handler_delete_existing [OF assms(1,3,4)] pc [symmetric]
    using assms(2) by (simp add: body_Status_sendResponse e calls_made_def drain_calls_def)
qed


theorem versioned_bucket_drained_witness:
  "buckets example_store ''ver''
     = Some \<lparr>Status = Enabled,
             entries = [DeleteMarker ''k'' (VersionNo 7), Version ''k'' (VersionNo 5) ''x'',
                        Version ''j'' (VersionNo 3) ''y'']\<rparr>
   \<and> RequestType (example_event ''Delete'' ''dst'' ''ver'') = ''Delete''
   \<and> inputBucketName (ResourceProperties (example_event ''Delete'' ''dst'' ''ver'')) = Some ''ver''
   \<and> map body_Status
        (responses (lambda_handler False (example_event ''Delete'' ''dst'' ''ver'') example_context example_store))
       = [SUCCESS]
   \<and> buckets (store (lambda_handler False (example_event ''Delete'' ''dst'' ''ver'') example_context example_store)) ''ver''
       = Some \<lparr>Status = Suspended, entries = []\<rparr>
   \<and> calls_made example_store
        (store (lambda_handler False (example_event ''Delete'' ''dst'' ''ver'') example_context example_store))
       = [ListBuckets, GetBucketVersioning ''ver'', PutBucketVersioning ''ver'' Suspended,
          ListObjectVersions ''ver'',
          DeleteObject ''ver'' ''k'' (Some (VersionNo 7)),
          DeleteObject ''ver'' ''k'' (Some (VersionNo 5)),
          DeleteObject ''ver'' ''j'' (Some (VersionNo 3)),
          ListObjectsV2 ''ver'']"
proof -
  let ?bk = "\<lparr>Status = Enabled,
             entries = [DeleteMarker ''k'' (VersionNo 7), Version ''k'' (VersionNo 5) ''x'',
                        Version ''j'' (VersionNo 3) ''y'']\<rparr>"
  have h1: "buckets example_store ''ver'' = Some ?bk"
    by (simp add: example_store_def)
  have h2: "Status ?bk = Enabled" by simp
  have h3: "RequestType (example_event ''Delete'' ''dst'' ''ver'') = ''Delete''"
    by (simp add: example_event_def)
  have h4: "inputBucketName (ResourceProperties (example_event ''Delete'' ''dst'' ''ver'')) = Some ''ver''"
    by (simp add: example_event_def)
  have pg: "pages (entries ?bk) = [entries ?bk]"
    by (simp add: pages_def max_keys_def chunks.simps)
  note pg' = pg [simplified]
  show ?thesis
    using versioned_bucket_drained [OF h1 h2 h3 h4, of False example_context] h1 h3 h4
    by (simp add: pg' version_call_def)
qed

lemma emptied_emptied: "emptied (emptied bk) = emptied bk"
  by (simp add: emptied_def)

lemma entries_emptied: "entries (emptied bk) = []"
  by (simp add: emptied_def)

lemma pages_nil: "pages [] = [[]]"
  by (simp add: pages_def)

lemma drain_calls_empty:
  "entries bk = [] \<Longrightarrow> filter is_deletion (drain_calls b bk) = []"
  by (simp add: drain_calls_def pages_nil page_calls_def is_deletion_def)

lemma calls_made_append: "calls s' = calls s @ cs \<Longrightarrow> calls_made s s' = cs"
  by (simp add: calls_made_def)

section \<open>BucketDrainer: repeated runs, missing buckets\<close>

text \<open>
  Claim C3. For every bucket that exists, a \<^verbatim>\<open>Delete\<close> run followed by a second
  \<^verbatim>\<open>Delete\<close> run answers \<^verbatim>\<open>SUCCESS\<close> both times; after the first run the bucket
  has no entry, the second run leaves every bucket as the first left it and makes no
  deletion request; and a run on a bucket that has no entry to begin with makes no
  deletion request (and answers \<^verbatim>\<open>SUCCESS\<close>, as every first run does).
\<close>

theorem drainer_idempotent:
  assumes "buckets s b = Some bk"
    and "RequestType event = ''Delete''"
    and "inputBucketName (ResourceProperties event) = Some b"
  shows "let first = lambda_handler strict event context s;
             second = lambda_handler strict event context' (store first)
         in map body_Status (responses first) = [SUCCESS]
          \<and> map body_Status (responses second) = [SUCCESS]
          \<and> map_option entries (buckets (store first) b) = Some []
          \<and> buckets (store second) = buckets (store first)
          \<and> filter is_deletion (calls_made (store first) (store second)) = []
          \<and> (entries bk = [] \<longrightarrow> filter is_deletion (calls_made s (store first)) = [])"
proof -
  let ?s1 = "s\<lparr>buckets := (buckets s)(b \<mapsto> emptied bk), calls := calls s @ drain_calls b bk\<rparr>"
  let ?s2 = "?s1\<lparr>buckets := (buckets ?s1)(b \<mapsto> emptied (emptied bk)),
                  calls := calls ?s1 @ drain_calls b (emptied bk)\<rparr>"
  have first: "lambda_handler strict event context s
      = \<lparr>responses = [sendResponse event context SUCCESS], logged = [], store = ?s1\<rparr>"
    by (rule lambda_handler_delete_existing [OF assms])
  have look: "buckets ?s1 b = Some (emptied bk)" by simp
  have second: "lambda_handler strict event context' ?s1
      = \<lparr>responses = [sendResponse event context' SUCCESS], logged = [], store = ?s2\<rparr>"
    by (rule lambda_handler_delete_existing [OF look assms(2,3)])
  have c1: "calls_made s ?s1 = drain_calls b bk"
    by (rule calls_made_append) simp
  have c2: "calls_made ?s1 ?s2 = drain_calls b (emptied bk)"
    by (rule calls_made_append) simp
  have d2: "filter is_deletion (drain_calls b (emptied bk)) = []"
    by (rule drain_calls_empty) (rule entries_emptied)
  have same: "buckets ?s2 = buckets ?s1"
    by (simp add: emptied_emptied)
  show ?thesis
    unfolding Let_def first second invocation.simps c1 c2 d2 same
    by (simp add: body_Status_sendResponse entries_emptied drain_calls_empty)
qed

theorem drainer_idempotent_witness:
  "buckets example_store ''new'' = Some \<lparr>Status = Unversioned, entries = []\<rparr>
   \<and> RequestType (example_event ''Delete'' ''dst'' ''new'') = ''Delete''
   \<and> inputBucketName (ResourceProperties (example_event ''Delete'' ''dst'' ''new'')) = Some ''new''
   \<and> entries \<lparr>Status = Unversioned, entries = []\<rparr> = []
   \<and> map body_Status (responses
         (lambda_handler False (example_event ''Delete'' ''dst'' ''new'') example_context example_store))
       = [SUCCESS]
   \<and> map body_Status (responses
         (lambda_handler False (example_event ''Delete'' ''dst'' ''new'') example_context
            (store (lambda_handler False (example_event ''Delete'' ''dst'' ''new'') example_context
               example_store))))
       = [SUCCESS]
   \<and> map_option entries (buckets (store
         (lambda_handler False (example_event ''Delete'' ''dst'' ''new'') example_context example_store))
         ''new'') = Some []
   \<and> filter is_deletion (calls_made example_store (store
         (lambda_handler False (example_event ''Delete'' ''dst'' ''new'') example_context example_store)))
       = []"
proof -
  have h1: "buckets example_store ''new'' = Some \<lparr>Status = Unversioned, entries = []\<rparr>"
    by (simp add: example_store_def)
  have h2: "RequestType (example_event ''Delete'' ''dst'' ''new'') = ''Delete''"
    by (simp add: example_event_def)
  have h3: "inputBucketName (ResourceProperties (example_event ''Delete'' ''dst'' ''new'')) = Some ''new''"
    by (simp add: example_event_def)
  show ?thesis
    using drainer_idempotent [OF h1 h2 h3, of False example_context example_context] h1 h2 h3
    by (simp add: Let_def)
qed

text \<open>
  A \<^verbatim>\<open>Delete\<close> event for a bucket that does not exist: with boto3's \<^verbatim>\<open>load()\<close>
  the status request fails with \<^verbatim>\<open>NoSuchBucket\<close>; with a \<^verbatim>\<open>load()\<close> that raises,
  the \<^verbatim>\<open>except\<close> clause raises \<^verbatim>\<open>NameError\<close>. Either exception reaches the
  handler's \<^verbatim>\<open>except Exception\<close>, which answers \<^verbatim>\<open>FAILED\<close>.
\<close>

lemma lambda_handler_missing_bucket:
  assumes "buckets s b = None"
    and "RequestType event = ''Delete''"
    and "inputBucketName (ResourceProperties event) = Some b"
  shows "responses (lambda_handler strict event context s) = [sendResponse event context FAILED]"
    and "logged (lambda_handler strict event context s)
           = [if strict then NameError ''ClientError'' else ClientError ''NoSuchBucket'']"
  using assms
  by (simp_all add: lambda_handler_def lambda_handler_try_def empty_bucket_def bucket_load_def
        and_then_def get_bucket_versioning_def buckets_api)

text \<open>
  Claim C5 says that the drainer reports success for a bucket that does not exist. The
  code does not: for the event \<^verbatim>\<open>Delete\<close> naming the bucket \<^verbatim>\<open>gone\<close>, which the
  example store does not have, the answer is \<^verbatim>\<open>FAILED\<close> under either behaviour of
  \<^verbatim>\<open>load()\<close>.
\<close>

theorem missing_bucket_reports_failed:
  "buckets example_store ''gone'' = None
   \<and> map body_Status (responses
         (lambda_handler False (example_event ''Delete'' ''dst'' ''gone'') example_context example_store))
       = [FAILED]
   \<and> logged (lambda_handler False (example_event ''Delete'' ''dst'' ''gone'') example_context example_store)
       = [ClientError ''NoSuchBucket'']
   \<and> map body_Status (responses
         (lambda_handler True (example_event ''Delete'' ''dst'' ''gone'') example_context example_store))
       = [FAILED]
   \<and> logged (lambda_handler True (example_event ''Delete'' ''dst'' ''gone'') example_context example_store)
       = [NameError ''ClientError'']"
proof -
  have h1: "buckets example_store ''gone'' = None"
    by (simp add: example_store_def)
  have h2: "RequestType (example_event ''Delete'' ''dst'' ''gone'') = ''Delete''"
    by (simp add: example_event_def)
  have h3: "inputBucketName (ResourceProperties (example_event ''Delete'' ''dst'' ''gone'')) = Some ''gone''"
    by (simp add: example_event_def)
  show ?thesis
    using lambda_handler_missing_bucket [OF h1 h2 h3] h1
    by (simp add: body_Status_sendResponse)
qed

section \<open>Events that lack a property\<close>

text \<open>
  Claim C10. When the event lacks one of the four properties \<^verbatim>\<open>handler\<close> reads, or the
  one property \<^verbatim>\<open>lambda_handler\<close> reads, the handler answers \<^verbatim>\<open>FAILED\<close> and the
  object store is as before, its record of requests included: no request was made.
\<close>

theorem missing_property_no_storage_call:
  "(SourceBucket (ResourceProperties event) = None \<or> DestBucket (ResourceProperties event) = None
      \<or> Prefix (ResourceProperties event) = None \<or> Objects (ResourceProperties event) = None
    \<longrightarrow> store (handler event context s) = s
        \<and> map body_Status (responses (handler event context s)) = [FAILED])
   \<and> (inputBucketName (ResourceProperties event) = None
    \<longrightarrow> store (lambda_handler strict event context s) = s
        \<and> map body_Status (responses (lambda_handler strict event context s)) = [FAILED])"
  by (auto simp add: handler_def handler_try_def lambda_handler_def lambda_handler_try_def
        raise_def cfnresponse_send_def sendResponse_def split: option.splits)

theorem missing_property_no_storage_call_witness:
  "Objects (ResourceProperties example_event_without) = None
   \<and> inputBucketName (ResourceProperties example_event_without) = None
   \<and> store (handler example_event_without example_context example_store) = example_store
   \<and> map body_Status (responses (handler example_event_without example_context example_store)) = [FAILED]
   \<and> store (lambda_handler False example_event_without example_context example_store) = example_store
   \<and> map body_Status (responses (lambda_handler False example_event_without example_context example_store))
       = [FAILED]"
proof -
  have h1: "Objects (ResourceProperties example_event_without) = None"
    by (simp add: example_event_without_def)
  have h2: "inputBucketName (ResourceProperties example_event_without) = None"
    by (simp add: example_event_without_def)
  show ?thesis
    using missing_property_no_storage_call [of example_event_without example_context example_store False]
      h1 h2
    by simp
qed

lemma handler_of_try:
  "store (handler event context s) = snd (handler_try event s)"
  "map body_Status (responses (handler event context s)) = [reported (handler_try event s)]"
  "responses (handler event context s) = [cfnresponse_send event context (reported (handler_try event s))]"
  by (simp_all add: handler_def reported_def cfnresponse_send_def split: prod.splits sum.splits)

lemma lambda_handler_of_try:
  "store (lambda_handler strict event context s) = snd (lambda_handler_try strict event s)"
  "map body_Status (responses (lambda_handler strict event context s))
     = [reported (lambda_handler_try strict event s)]"
  "responses (lambda_handler strict event context s)
     = [sendResponse event context (reported (lambda_handler_try strict event s))]"
  by (simp_all add: lambda_handler_def reported_def sendResponse_def split: prod.splits sum.splits)

lemma handler_try_present:
  assumes "SourceBucket (ResourceProperties event) = Some sb"
    and "DestBucket (ResourceProperties event) = Some db"
    and "Prefix (ResourceProperties event) = Some pre"
    and "Objects (ResourceProperties event) = Some objs"
  shows "handler_try event s
           = (if RequestType event = ''Delete'' then delete_objects db pre objs s
              else copy_objects sb db pre objs s)"
  using assms by (simp add: handler_try_def)

section \<open>Routing by request type\<close>

text \<open>
  Claim C7. With its properties present, \<^verbatim>\<open>handler\<close> does for \<^verbatim>\<open>Create\<close> and
  \<^verbatim>\<open>Update\<close> exactly what \<^verbatim>\<open>copy_objects\<close> does and for \<^verbatim>\<open>Delete\<close> exactly
  what \<^verbatim>\<open>delete_objects\<close> does on the destination; \<^verbatim>\<open>lambda_handler\<close> leaves the
  store untouched and answers \<^verbatim>\<open>SUCCESS\<close> for \<^verbatim>\<open>Create\<close> and \<^verbatim>\<open>Update\<close> and
  does exactly what \<^verbatim>\<open>empty_bucket\<close> does for \<^verbatim>\<open>Delete\<close>. The store after the
  handler is the store after the routed function, so no other request is made; the
  status answered is \<^verbatim>\<open>SUCCESS\<close> when the routed function returns and \<^verbatim>\<open>FAILED\<close>
  when it raises.
\<close>

theorem dispatcher_routes:
  assumes "SourceBucket (ResourceProperties event) = Some sb"
    and "DestBucket (ResourceProperties event) = Some db"
    and "Prefix (ResourceProperties event) = Some pre"
    and "Objects (ResourceProperties event) = Some objs"
    and "inputBucketName (ResourceProperties event') = Some b"
  shows "(RequestType event = ''Create'' \<or> RequestType event = ''Update''
          \<longrightarrow> store (handler event context s) = snd (copy_objects sb db pre objs s)
            \<and> map body_Status (responses (handler event context s))
                = [reported (copy_objects sb db pre objs s)])
       \<and> (RequestType event = ''Delete''
          \<longrightarrow> store (handler event context s) = snd (delete_objects db pre objs s)
            \<and> map body_Status (responses (handler event context s))
                = [reported (delete_objects db pre objs s)])
       \<and> (RequestType event' = ''Create'' \<or> RequestType event' = ''Update''
          \<longrightarrow> store (lambda_handler strict event' context s) = s
            \<and> map body_Status (responses (lambda_handler strict event' context s)) = [SUCCESS])
       \<and> (RequestType event' = ''Delete''
          \<longrightarrow> store (lambda_handler strict event' context s) = snd (empty_bucket strict b s)
            \<and> map body_Status (responses (lambda_handler strict event' context s))
                = [reported (empty_bucket strict b s)])"
proof -
  have c: "RequestType event = ''Create'' \<or> RequestType event = ''Update''
      \<Longrightarrow> handler_try event s = copy_objects sb db pre objs s"
    using handler_try_present [OF assms(1-4)] by auto
  have d: "RequestType event = ''Delete''
      \<Longrightarrow> handler_try event s = delete_objects db pre objs s"
    using handler_try_present [OF assms(1-4)] by simp
  have n: "RequestType event' = ''Create'' \<or> RequestType event' = ''Update''
      \<Longrightarrow> lambda_handler_try strict event' s = (Inr (), s)"
    using assms(5) by (auto simp add: lambda_handler_try_def return_def)
  have e: "RequestType event' = ''Delete''
      \<Longrightarrow> lambda_handler_try strict event' s = empty_bucket strict b s"
    using assms(5) by (simp add: lambda_handler_try_def)
  show ?thesis
    using c d n e by (auto simp add: handler_of_try(1,2) lambda_handler_of_try(1,2) reported_def)
qed

theorem dispatcher_routes_witness:
  "SourceBucket (ResourceProperties (example_event ''Create'' ''new'' ''ver'')) = Some ''src''
   \<and> DestBucket (ResourceProperties (example_event ''Create'' ''new'' ''ver'')) = Some ''new''
   \<and> Prefix (ResourceProperties (example_event ''Create'' ''new'' ''ver'')) = Some ''p/''
   \<and> Objects (ResourceProperties (example_event ''Create'' ''new'' ''ver'')) = Some [''a'', ''b'']
   \<and> inputBucketName (ResourceProperties (example_event ''Delete'' ''new'' ''ver'')) = Some ''ver''
   \<and> RequestType (example_event ''Create'' ''new'' ''ver'') = ''Create''
   \<and> RequestType (example_event ''Delete'' ''new'' ''ver'') = ''Delete''
   \<and> store (handler (example_event ''Create'' ''new'' ''ver'') example_context example_store)
       = snd (copy_objects ''src'' ''new'' ''p/'' [''a'', ''b''] example_store)
   \<and> map body_Status (responses (handler (example_event ''Create'' ''new'' ''ver'') example_context example_store))
       = [reported (copy_objects ''src'' ''new'' ''p/'' [''a'', ''b''] example_store)]
   \<and> store (lambda_handler False (example_event ''Delete'' ''new'' ''ver'') example_context example_store)
       = snd (empty_bucket False ''ver'' example_store)
   \<and> map body_Status (responses (lambda_handler False (example_event ''Delete'' ''new'' ''ver'') example_context example_store))
       = [reported (empty_bucket False ''ver'' example_store)]"
proof -
  let ?c = "example_event ''Create'' ''new'' ''ver''"
  let ?d = "example_event ''Delete'' ''new'' ''ver''"
  have h1: "SourceBucket (ResourceProperties ?c) = Some ''src''"
    and h2: "DestBucket (ResourceProperties ?c) = Some ''new''"
    and h3: "Prefix (ResourceProperties ?c) = Some ''p/''"
    and h4: "Objects (ResourceProperties ?c) = Some [''a'', ''b'']"
    and h5: "inputBucketName (ResourceProperties ?d) = Some ''ver''"
    and h6: "RequestType ?c = ''Create''"
    and h7: "RequestType ?d = ''Delete''"
    by (simp_all add: example_event_def)
  show ?thesis
    using dispatcher_routes [OF h1 h2 h3 h4 h5, of example_context example_store False]
      h1 h2 h3 h4 h5 h6 h7
    by simp
qed

section \<open>ObjectCopier: order of the requests, failure\<close>

lemma foreach_append:
  "foreach f (xs @ ys) s
     = (case foreach f xs s of (Inl e, s') \<Rightarrow> (Inl e, s') | (Inr u, s') \<Rightarrow> foreach f ys s')"
  by (induction xs arbitrary: s) (auto split: prod.splits sum.splits)

lemma copy_object_calls:
  "calls (snd (copy_object sb sk db dk s)) = calls s @ [CopyObject sb sk db dk]"
  by (simp add: copy_object_def api_def set_bucket_def split: option.splits prod.splits)

lemma copy_objects_calls:
  "\<exists>n. n \<le> length objects
     \<and> calls (snd (copy_objects sb db pre objects s))
         = calls s @ map (copy_call sb db pre) (take n objects)
     \<and> (fst (copy_objects sb db pre objects s) = Inr () \<longrightarrow> n = length objects)"
proof (induction objects arbitrary: s)
  case Nil
  then show ?case by (simp add: copy_objects_def)
next
  case (Cons name objects)
  obtain r s1 where step: "copy_object sb (pre @ name) db (pre @ name) s = (r, s1)"
    by (cases "copy_object sb (pre @ name) db (pre @ name) s")
  have cs: "calls s1 = calls s @ [copy_call sb db pre name]"
    using copy_object_calls [of sb "pre @ name" db "pre @ name" s] step
    by (simp add: copy_call_def)
  show ?case
  proof (cases r)
    case (Inl e)
    then have "copy_objects sb db pre (name # objects) s = (Inl e, s1)"
      by (simp add: copy_objects_def step)
    then have "calls (snd (copy_objects sb db pre (name # objects) s))
                 = calls s @ map (copy_call sb db pre) (take 1 (name # objects))
               \<and> fst (copy_objects sb db pre (name # objects) s) \<noteq> Inr ()"
      using cs by simp
    then show ?thesis by (intro exI [of _ 1]) simp
  next
    case (Inr u)
    then have run: "copy_objects sb db pre (name # objects) s = copy_objects sb db pre objects s1"
      by (simp add: copy_objects_def step)
    from Cons.IH [of s1] obtain n where n: "n \<le> length objects"
      "calls (snd (copy_objects sb db pre objects s1))
         = calls s1 @ map (copy_call sb db pre) (take n objects)"
      "fst (copy_objects sb db pre objects s1) = Inr () \<longrightarrow> n = length objects"
      by blast
    show ?thesis
      using n cs by (intro exI [of _ "Suc n"]) (simp add: run)
  qed
qed

lemma s3_delete_objects_calls:
  "calls (snd (s3_delete_objects b ks s)) = calls s @ [DeleteObjects b ks]"
  by (simp add: s3_delete_objects_def api_def set_bucket_def split: option.splits prod.splits)

text \<open>
  Claim C8 says that copies and deletes alike are one request per name, in list order.
  Deleting is not: \<^verbatim>\<open>delete_objects\<close> makes one batch request for the whole list. For
  the two names of the example event, the \<^verbatim>\<open>Delete\<close> run makes one request.
\<close>

theorem delete_is_one_request:
  "calls_made example_store
      (store (handler (example_event ''Delete'' ''dst'' ''ver'') example_context example_store))
     = [DeleteObjects ''dst'' [''p/a'', ''p/b'']]
   \<and> length (calls_made example_store
         (store (handler (example_event ''Delete'' ''dst'' ''ver'') example_context example_store)))
       \<noteq> length [''a'', ''b'']"
  by (simp add: handler_of_try(1) handler_try_def example_event_def delete_objects_def
        s3_delete_objects_calls calls_made_def)

lemma copy_objects_all_calls:
  assumes "fst (copy_objects sb db pre objects s) = Inr ()"
  shows "calls (snd (copy_objects sb db pre objects s)) = calls s @ map (copy_call sb db pre) objects"
proof -
  obtain n where "n \<le> length objects"
    "calls (snd (copy_objects sb db pre objects s))
       = calls s @ map (copy_call sb db pre) (take n objects)"
    "fst (copy_objects sb db pre objects s) = Inr () \<longrightarrow> n = length objects"
    using copy_objects_calls by blast
  with assms show ?thesis by simp
qed

lemma copy_objects_stops:
  assumes "fst (copy_objects sb db pre before s) = Inr ()"
    and "fst (copy_object sb (pre @ name) db (pre @ name) (snd (copy_objects sb db pre before s))) = Inl e"
  shows "copy_objects sb db pre (before @ name # behind) s
           = (Inl e, snd (copy_object sb (pre @ name) db (pre @ name)
                            (snd (copy_objects sb db pre before s))))"
    and "calls (snd (copy_objects sb db pre (before @ name # behind) s))
           = calls s @ map (copy_call sb db pre) (before @ [name])"
proof -
  obtain s1 where one: "copy_objects sb db pre before s = (Inr (), s1)"
    using assms(1) by (cases "copy_objects sb db pre before s") simp
  obtain s2 where two: "copy_object sb (pre @ name) db (pre @ name) s1 = (Inl e, s2)"
    using assms(2) one by (cases "copy_object sb (pre @ name) db (pre @ name) s1") simp
  have each: "foreach (\<lambda>name. copy_object sb (pre @ name) db (pre @ name)) before s = (Inr (), s1)"
    using one by (simp add: copy_objects_def)
  have run: "copy_objects sb db pre (before @ name # behind) s = (Inl e, s2)"
    by (simp add: copy_objects_def foreach_append each two)
  show "copy_objects sb db pre (before @ name # behind) s
           = (Inl e, snd (copy_object sb (pre @ name) db (pre @ name)
                            (snd (copy_objects sb db pre before s))))"
    by (simp add: run one two)
  have "calls s1 = calls s @ map (copy_call sb db pre) before"
    using copy_objects_all_calls [OF assms(1)] by (simp add: one)
  moreover have "calls s2 = calls s1 @ [copy_call sb db pre name]"
    using copy_object_calls [of sb "pre @ name" db "pre @ name" s1]
    by (simp add: two copy_call_def)
  ultimately show "calls (snd (copy_objects sb db pre (before @ name # behind) s))
           = calls s @ map (copy_call sb db pre) (before @ [name])"
    by (simp add: run)
qed

lemma copy_objects_first_failure:
  "fst (copy_objects sb db pre objects s) = Inr ()
   \<or> (\<exists>before name behind e.
         objects = before @ name # behind
         \<and> fst (copy_objects sb db pre before s) = Inr ()
         \<and> fst (copy_object sb (pre @ name) db (pre @ name) (snd (copy_objects sb db pre before s)))
             = Inl e)"
proof (induction objects rule: rev_induct)
  case Nil
  then show ?case by (simp add: copy_objects_def)
next
  case (snoc name objects)
  from snoc.IH show ?case
  proof
    assume ok: "fst (copy_objects sb db pre objects s) = Inr ()"
    then obtain s1 where one: "copy_objects sb db pre objects s = (Inr (), s1)"
      by (cases "copy_objects sb db pre objects s") simp
    obtain r s2 where two: "copy_object sb (pre @ name) db (pre @ name) s1 = (r, s2)"
      by (cases "copy_object sb (pre @ name) db (pre @ name) s1")
    have each: "foreach (\<lambda>name. copy_object sb (pre @ name) db (pre @ name)) objects s = (Inr (), s1)"
      using one by (simp add: copy_objects_def)
    show ?thesis
    proof (cases r)
      case (Inl e)
      then have "fst (copy_object sb (pre @ name) db (pre @ name)
                        (snd (copy_objects sb db pre objects s))) = Inl e"
        by (simp add: one two)
      with ok show ?thesis by blast
    next
      case (Inr u)
      then have "fst (copy_objects sb db pre (objects @ [name]) s) = Inr ()"
        by (simp add: copy_objects_def foreach_append each two)
      then show ?thesis by blast
    qed
  next
    assume "\<exists>before name' behind e.
         objects = before @ name' # behind
         \<and> fst (copy_objects sb db pre before s) = Inr ()
         \<and> fst (copy_object sb (pre @ name') db (pre @ name') (snd (copy_objects sb db pre before s)))
             = Inl e"
    then obtain before name' behind e where split: "objects = before @ name' # behind"
      "fst (copy_objects sb db pre before s) = Inr ()"
      "fst (copy_object sb (pre @ name') db (pre @ name') (snd (copy_objects sb db pre before s))) = Inl e"
      by blast
    have "objects @ [name] = before @ name' # (behind @ [name])"
      by (simp add: split(1))
    with split(2,3) show ?thesis by blast
  qed
qed

text \<open>
  Claim C8 as amended. \<^verbatim>\<open>copy_objects\<close> makes one copy request per name, in list
  order, and stops at the first copy that fails. Either every copy succeeds, and then the
  requests made are the copies of all names in list order; or there is a first name whose
  copy fails after the copies of the names before it succeeded, and then
  \<^verbatim>\<open>copy_objects\<close> raises that copy's error and the requests made are the copies of the
  names up to and including that name, none for the names behind it.
  \<^verbatim>\<open>delete_objects\<close> makes a single batch request that carries the keys prefix + name
  in list order.
\<close>

theorem copies_one_by_one_deletes_in_one_batch:
  "(fst (copy_objects source_bucket dest_bucket prefix objects s) = Inr ()
      \<longrightarrow> calls_made s (snd (copy_objects source_bucket dest_bucket prefix objects s))
           = map (copy_call source_bucket dest_bucket prefix) objects)
   \<and> (fst (copy_objects source_bucket dest_bucket prefix before s) = Inr ()
       \<and> fst (copy_object source_bucket (prefix @ name) dest_bucket (prefix @ name)
                (snd (copy_objects source_bucket dest_bucket prefix before s))) = Inl e
      \<longrightarrow> fst (copy_objects source_bucket dest_bucket prefix (before @ name # behind) s) = Inl e
        \<and> calls_made s (snd (copy_objects source_bucket dest_bucket prefix (before @ name # behind) s))
           = map (copy_call source_bucket dest_bucket prefix) (before @ [name]))
   \<and> (fst (copy_objects source_bucket dest_bucket prefix objects s) = Inr ()
       \<or> (\<exists>before name behind e.
             objects = before @ name # behind
             \<and> fst (copy_objects source_bucket dest_bucket prefix before s) = Inr ()
             \<and> fst (copy_object source_bucket (prefix @ name) dest_bucket (prefix @ name)
                      (snd (copy_objects source_bucket dest_bucket prefix before s))) = Inl e))
   \<and> calls_made s (snd (delete_objects bucket prefix objects s))
       = [DeleteObjects bucket (map (\<lambda>name. prefix @ name) objects)]"
proof (intro conjI impI)
  assume "fst (copy_objects source_bucket dest_bucket prefix objects s) = Inr ()"
  then show "calls_made s (snd (copy_objects source_bucket dest_bucket prefix objects s))
           = map (copy_call source_bucket dest_bucket prefix) objects"
    by (simp add: calls_made_def copy_objects_all_calls)
next
  assume h: "fst (copy_objects source_bucket dest_bucket prefix before s) = Inr ()
       \<and> fst (copy_object source_bucket (prefix @ name) dest_bucket (prefix @ name)
                (snd (copy_objects source_bucket dest_bucket prefix before s))) = Inl e"
  show "fst (copy_objects source_bucket dest_bucket prefix (before @ name # behind) s) = Inl e"
    using copy_objects_stops(1) [OF h [THEN conjunct1] h [THEN conjunct2], of behind] by simp
  show "calls_made s (snd (copy_objects source_bucket dest_bucket prefix (before @ name # behind) s))
           = map (copy_call source_bucket dest_bucket prefix) (before @ [name])"
    using copy_objects_stops(2) [OF h [THEN conjunct1] h [THEN conjunct2], of behind]
    by (simp add: calls_made_def)
next
  show "fst (copy_objects source_bucket dest_bucket prefix objects s) = Inr ()
       \<or> (\<exists>before name behind e.
             objects = before @ name # behind
             \<and> fst (copy_objects source_bucket dest_bucket prefix before s) = Inr ()
             \<and> fst (copy_object source_bucket (prefix @ name) dest_bucket (prefix @ name)
                      (snd (copy_objects source_bucket dest_bucket prefix before s))) = Inl e)"
    by (rule copy_objects_first_failure)
next
  show "calls_made s (snd (delete_objects bucket prefix objects s))
       = [DeleteObjects bucket (map (\<lambda>name. prefix @ name) objects)]"
    by (simp add: calls_made_def delete_objects_def s3_delete_objects_calls)
qed

lemma example_copy_a:
  "copy_object ''src'' ''p/a'' ''new'' ''p/a'' example_store
     = (Inr (), example_store
          \<lparr>buckets := (buckets example_store)
             (''new'' \<mapsto> \<lparr>Status = Unversioned, entries = [Version ''p/a'' NullVersion ''A'']\<rparr>),
           calls := [CopyObject ''src'' ''p/a'' ''new'' ''p/a'']\<rparr>)"
  by (simp add: copy_object_def example_store_def current_object_def put_entry_def
        remove_version_def api_def set_bucket_def)

lemma example_copy_b:
  "copy_object ''src'' ''p/b'' ''new'' ''p/b''
     (example_store
          \<lparr>buckets := (buckets example_store)
             (''new'' \<mapsto> \<lparr>Status = Unversioned, entries = [Version ''p/a'' NullVersion ''A'']\<rparr>),
           calls := [CopyObject ''src'' ''p/a'' ''new'' ''p/a'']\<rparr>)
     = (Inr (), example_store
          \<lparr>buckets := (buckets example_store)
             (''new'' \<mapsto> \<lparr>Status = Unversioned,
                            entries = [Version ''p/a'' NullVersion ''A'', Version ''p/b'' NullVersion ''B'']\<rparr>),
           calls := [CopyObject ''src'' ''p/a'' ''new'' ''p/a'', CopyObject ''src'' ''p/b'' ''new'' ''p/b'']\<rparr>)"
  by (simp add: copy_object_def example_store_def current_object_def put_entry_def
        remove_version_def api_def set_bucket_def)

lemma example_copy_zz:
  "copy_object ''src'' ''p/zz'' ''new'' ''p/zz''
     (example_store
          \<lparr>buckets := (buckets example_store)
             (''new'' \<mapsto> \<lparr>Status = Unversioned, entries = [Version ''p/a'' NullVersion ''A'']\<rparr>),
           calls := [CopyObject ''src'' ''p/a'' ''new'' ''p/a'']\<rparr>)
     = (Inl (ClientError ''NoSuchKey''), example_store
          \<lparr>buckets := (buckets example_store)
             (''new'' \<mapsto> \<lparr>Status = Unversioned, entries = [Version ''p/a'' NullVersion ''A'']\<rparr>),
           calls := [CopyObject ''src'' ''p/a'' ''new'' ''p/a'', CopyObject ''src'' ''p/zz'' ''new'' ''p/zz'']\<rparr>)"
  by (simp add: copy_object_def example_store_def current_object_def api_def)

theorem copies_one_by_one_deletes_in_one_batch_witness:
  "fst (copy_objects ''src'' ''new'' ''p/'' [''a'', ''b''] example_store) = Inr ()
   \<and> calls_made example_store (snd (copy_objects ''src'' ''new'' ''p/'' [''a'', ''b''] example_store))
       = [CopyObject ''src'' ''p/a'' ''new'' ''p/a'', CopyObject ''src'' ''p/b'' ''new'' ''p/b'']
   \<and> fst (copy_objects ''src'' ''new'' ''p/'' [''a''] example_store) = Inr ()
   \<and> fst (copy_object ''src'' (''p/'' @ ''zz'') ''new'' (''p/'' @ ''zz'')
            (snd (copy_objects ''src'' ''new'' ''p/'' [''a''] example_store)))
       = Inl (ClientError ''NoSuchKey'')
   \<and> fst (copy_objects ''src'' ''new'' ''p/'' ([''a''] @ ''zz'' # [''b'']) example_store)
       = Inl (ClientError ''NoSuchKey'')
   \<and> calls_made example_store
        (snd (copy_objects ''src'' ''new'' ''p/'' ([''a''] @ ''zz'' # [''b'']) example_store))
       = [CopyObject ''src'' ''p/a'' ''new'' ''p/a'', CopyObject ''src'' ''p/zz'' ''new'' ''p/zz'']
   \<and> calls_made example_store (snd (delete_objects ''new'' ''p/'' [''a'', ''b''] example_store))
       = [DeleteObjects ''new'' [''p/a'', ''p/b'']]"
proof -
  have h: "fst (copy_objects ''src'' ''new'' ''p/'' [''a'', ''b''] example_store) = Inr ()"
    by (simp add: copy_objects_def example_copy_a example_copy_b)
  have h6: "fst (copy_objects ''src'' ''new'' ''p/'' [''a''] example_store) = Inr ()"
    by (simp add: copy_objects_def example_copy_a)
  have h7: "fst (copy_object ''src'' (''p/'' @ ''zz'') ''new'' (''p/'' @ ''zz'')
            (snd (copy_objects ''src'' ''new'' ''p/'' [''a''] example_store)))
       = Inl (ClientError ''NoSuchKey'')"
    by (simp add: copy_objects_def example_copy_a example_copy_zz)
  note all = copies_one_by_one_deletes_in_one_batch
      [where source_bucket = "''src''" and dest_bucket = "''new''" and prefix = "''p/''"
         and objects = "[''a'', ''b'']" and s = example_store and bucket = "''new''"
         and before = "[''a'']" and name = "''zz''" and behind = "[''b'']"
         and e = "ClientError ''NoSuchKey''"]
  have c1: "calls_made example_store (snd (copy_objects ''src'' ''new'' ''p/'' [''a'', ''b''] example_store))
       = [CopyObject ''src'' ''p/a'' ''new'' ''p/a'', CopyObject ''src'' ''p/b'' ''new'' ''p/b'']"
    using all [THEN conjunct1] h by (simp add: copy_call_def)
  have c2: "fst (copy_objects ''src'' ''new'' ''p/'' ([''a''] @ ''zz'' # [''b'']) example_store)
       = Inl (ClientError ''NoSuchKey'')
     \<and> calls_made example_store
        (snd (copy_objects ''src'' ''new'' ''p/'' ([''a''] @ ''zz'' # [''b'']) example_store))
       = map (copy_call ''src'' ''new'' ''p/'') ([''a''] @ [''zz''])"
    using all [THEN conjunct2, THEN conjunct1] h6 h7 by blast
  have c3: "calls_made example_store
        (snd (copy_objects ''src'' ''new'' ''p/'' ([''a''] @ ''zz'' # [''b'']) example_store))
       = [CopyObject ''src'' ''p/a'' ''new'' ''p/a'', CopyObject ''src'' ''p/zz'' ''new'' ''p/zz'']"
    using c2 [THEN conjunct2] by (simp add: copy_call_def)
  have c4: "calls_made example_store (snd (delete_objects ''new'' ''p/'' [''a'', ''b''] example_store))
       = [DeleteObjects ''new'' [''p/a'', ''p/b'']]"
    using all [THEN conjunct2, THEN conjunct2, THEN conjunct2] by simp
  show ?thesis
    using h c1 h6 h7 c2 [THEN conjunct1] c3 c4 by (intro conjI)
qed

text \<open>
  Claim C6. Let \<^verbatim>\<open>handler\<close> run its copy path (any request type but \<^verbatim>\<open>Delete\<close>) on
  a list in which the copies of the names before \<open>name\<close> succeed and the copy of \<open>name\<close>
  raises \<open>e\<close>. Then the store is left as that failed request left it, so nothing is done
  for the names behind \<open>name\<close>: the requests made are the copies up to and including that
  of \<open>name\<close>. The exception that reaches the \<^verbatim>\<open>except\<close> clause and is written to the log
  is \<open>e\<close>, and the one response sent has status \<^verbatim>\<open>FAILED\<close>.
\<close>

theorem copy_failure_aborts:
  assumes "SourceBucket (ResourceProperties event) = Some sb"
    and "DestBucket (ResourceProperties event) = Some db"
    and "Prefix (ResourceProperties event) = Some pre"
    and "Objects (ResourceProperties event) = Some (before @ name # behind)"
    and "RequestType event \<noteq> ''Delete''"
    and "fst (copy_objects sb db pre before s) = Inr ()"
    and "fst (copy_object sb (pre @ name) db (pre @ name) (snd (copy_objects sb db pre before s))) = Inl e"
  shows "handler event context s
           = \<lparr>responses = [cfnresponse_send event context FAILED],
              logged = [e],
              store = snd (copy_object sb (pre @ name) db (pre @ name)
                             (snd (copy_objects sb db pre before s)))\<rparr>
       \<and> calls_made s (store (handler event context s))
           = map (copy_call sb db pre) (before @ [name])"
proof -
  obtain s1 where one: "copy_objects sb db pre before s = (Inr (), s1)"
    using assms(6) by (cases "copy_objects sb db pre before s") simp
  obtain s2 where two: "copy_object sb (pre @ name) db (pre @ name) s1 = (Inl e, s2)"
    using assms(7) one by (cases "copy_object sb (pre @ name) db (pre @ name) s1") simp
  have each: "foreach (\<lambda>name. copy_object sb (pre @ name) db (pre @ name)) before s = (Inr (), s1)"
    using one by (simp add: copy_objects_def)
  have run: "copy_objects sb db pre (before @ name # behind) s = (Inl e, s2)"
    by (simp add: copy_objects_def foreach_append each two)
  have tried: "handler_try event s = (Inl e, s2)"
    using handler_try_present [OF assms(1-4)] assms(5) run by simp
  have inv: "handler event context s
           = \<lparr>responses = [cfnresponse_send event context FAILED], logged = [e], store = s2\<rparr>"
    by (simp add: handler_def tried)
  obtain n where n: "n \<le> length before"
    "calls (snd (copy_objects sb db pre before s))
       = calls s @ map (copy_call sb db pre) (take n before)"
    "fst (copy_objects sb db pre before s) = Inr () \<longrightarrow> n = length before"
    using copy_objects_calls by blast
  have "calls s1 = calls s @ map (copy_call sb db pre) before"
    using n by (simp add: one)
  moreover have "calls s2 = calls s1 @ [copy_call sb db pre name]"
    using copy_object_calls [of sb "pre @ name" db "pre @ name" s1]
    by (simp add: two copy_call_def)
  ultimately have "calls s2 = calls s @ map (copy_call sb db pre) (before @ [name])"
    by simp
  then show ?thesis
    by (simp add: inv calls_made_def one two)
qed

theorem copy_failure_aborts_witness:
  "SourceBucket (ResourceProperties example_event_missing) = Some ''src''
   \<and> DestBucket (ResourceProperties example_event_missing) = Some ''new''
   \<and> Prefix (ResourceProperties example_event_missing) = Some ''p/''
   \<and> Objects (ResourceProperties example_event_missing) = Some ([''a''] @ ''zz'' # [''b''])
   \<and> RequestType example_event_missing \<noteq> ''Delete''
   \<and> fst (copy_objects ''src'' ''new'' ''p/'' [''a''] example_store) = Inr ()
   \<and> fst (copy_object ''src'' (''p/'' @ ''zz'') ''new'' (''p/'' @ ''zz'')
            (snd (copy_objects ''src'' ''new'' ''p/'' [''a''] example_store)))
       = Inl (ClientError ''NoSuchKey'')
   \<and> responses (handler example_event_missing example_context example_store)
       = [cfnresponse_send example_event_missing example_context FAILED]
   \<and> logged (handler example_event_missing example_context example_store)
       = [ClientError ''NoSuchKey'']
   \<and> calls_made example_store (store (handler example_event_missing example_context example_store))
       = [CopyObject ''src'' ''p/a'' ''new'' ''p/a'', CopyObject ''src'' ''p/zz'' ''new'' ''p/zz'']"
proof -
  have h1: "SourceBucket (ResourceProperties example_event_missing) = Some ''src''"
    and h2: "DestBucket (ResourceProperties example_event_missing) = Some ''new''"
    and h3: "Prefix (ResourceProperties example_event_missing) = Some ''p/''"
    and h4: "Objects (ResourceProperties example_event_missing) = Some ([''a''] @ ''zz'' # [''b''])"
    and h5: "RequestType example_event_missing \<noteq> ''Delete''"
    by (simp_all add: example_event_missing_def)
  have h6: "fst (copy_objects ''src'' ''new'' ''p/'' [''a''] example_store) = Inr ()"
    by (simp add: copy_objects_def example_copy_a)
  have h7: "fst (copy_object ''src'' (''p/'' @ ''zz'') ''new'' (''p/'' @ ''zz'')
            (snd (copy_objects ''src'' ''new'' ''p/'' [''a''] example_store)))
       = Inl (ClientError ''NoSuchKey'')"
    by (simp add: copy_objects_def example_copy_a example_copy_zz)
  note r = copy_failure_aborts [OF h1 h2 h3 h4 h5 h6 h7, of example_context]
  have c1: "responses (handler example_event_missing example_context example_store)
       = [cfnresponse_send example_event_missing example_context FAILED]"
    and c2: "logged (handler example_event_missing example_context example_store)
       = [ClientError ''NoSuchKey'']"
    using r [THEN conjunct1] by simp_all
  have c3: "calls_made example_store (store (handler example_event_missing example_context example_store))
       = [CopyObject ''src'' ''p/a'' ''new'' ''p/a'', CopyObject ''src'' ''p/zz'' ''new'' ''p/zz'']"
    using r [THEN conjunct2] by (simp add: copy_call_def)
  show ?thesis
    using h1 h2 h3 h4 h5 h6 h7 c1 c2 c3 by simp
qed

section \<open>ObjectCopier: what a delete touches, and undoing a copy\<close>

lemma filter_insert_newest: "\<not> P e \<Longrightarrow> filter P (insert_newest e es) = filter P es"
  by (induction es) auto

lemma filter_remove_version:
  "(\<And>e. P e \<Longrightarrow> \<not> (Key e = k \<and> VersionId e = v)) \<Longrightarrow> filter P (remove_version k v es) = filter P es"
  unfolding remove_version_def filter_filter by (rule filter_cong) auto

lemma delete_key_keeps:
  assumes "k \<in> K"
  shows "filter (\<lambda>e. Key e \<notin> K) (fst (delete_key st k n es)) = filter (\<lambda>e. Key e \<notin> K) es"
proof (cases st)
  case Unversioned
  then show ?thesis
    using assms by (auto simp add: delete_key_def intro!: filter_remove_version)
next
  case Enabled
  then show ?thesis
    using assms by (simp add: delete_key_def filter_insert_newest)
next
  case Suspended
  have "filter (\<lambda>e. Key e \<notin> K) (remove_version k NullVersion es) = filter (\<lambda>e. Key e \<notin> K) es"
    using assms by (auto intro!: filter_remove_version)
  with Suspended show ?thesis
    using assms by (simp add: delete_key_def filter_insert_newest)
qed

lemma delete_keys_keeps:
  "set ks \<subseteq> K \<Longrightarrow>
   filter (\<lambda>e. Key e \<notin> K) (fst (delete_keys st ks n es)) = filter (\<lambda>e. Key e \<notin> K) es"
proof (induction ks arbitrary: n es)
  case Nil
  then show ?case by simp
next
  case (Cons k ks)
  obtain es' n' where step: "delete_key st k n es = (es', n')"
    by (cases "delete_key st k n es")
  have "filter (\<lambda>e. Key e \<notin> K) es' = filter (\<lambda>e. Key e \<notin> K) es"
    using delete_key_keeps [of k K st n es] Cons.prems step by simp
  moreover have "filter (\<lambda>e. Key e \<notin> K) (fst (delete_keys st ks n' es')) = filter (\<lambda>e. Key e \<notin> K) es'"
    using Cons.IH [of n' es'] Cons.prems by simp
  ultimately show ?case by (simp add: step)
qed

lemma s3_delete_objects_other:
  "b' \<noteq> b \<Longrightarrow> buckets (snd (s3_delete_objects b ks s)) b' = buckets s b'"
  by (simp add: s3_delete_objects_def api_def set_bucket_def split: option.splits prod.splits)

lemma s3_delete_objects_outside:
  "map_option (outside (set ks)) (buckets (snd (s3_delete_objects b ks s)) b)
     = map_option (outside (set ks)) (buckets s b)"
proof (cases "buckets s b")
  case None
  then show ?thesis by (simp add: s3_delete_objects_def api_def)
next
  case (Some bk)
  obtain es n where d: "delete_keys (Status bk) ks (version_counter s) (entries bk) = (es, n)"
    by (cases "delete_keys (Status bk) ks (version_counter s) (entries bk)")
  have "filter (\<lambda>e. Key e \<notin> set ks) es = filter (\<lambda>e. Key e \<notin> set ks) (entries bk)"
    using delete_keys_keeps [of ks "set ks" "Status bk" "version_counter s" "entries bk"] d by simp
  then show ?thesis
    using Some d by (simp add: s3_delete_objects_def api_def set_bucket_def outside_def)
qed

lemma handler_ignores_source:
  assumes "RequestType event = ''Delete''"
    and "SourceBucket (ResourceProperties event) = Some sb"
  shows "handler (event\<lparr>ResourceProperties := (ResourceProperties event)\<lparr>SourceBucket := Some sb'\<rparr>\<rparr>) context s
           = handler event context s"
proof -
  let ?event = "event\<lparr>ResourceProperties := (ResourceProperties event)\<lparr>SourceBucket := Some sb'\<rparr>\<rparr>"
  have "handler_try ?event s = handler_try event s"
    using assms by (simp add: handler_try_def split: option.splits)
  moreover have "cfnresponse_send ?event context st = cfnresponse_send event context st" for st
    by (simp add: cfnresponse_send_def)
  ultimately show ?thesis
    by (simp add: handler_def split: prod.splits sum.splits)
qed

text \<open>
  Claim C9 says that the delete path leaves the source container as it was, for every
  request. A request may name one container as source and as destination; then the
  container named as source is the one the delete path deletes from.
\<close>

theorem delete_on_aliased_source:
  "SourceBucket (ResourceProperties (example_event ''Delete'' ''src'' ''ver'')) = Some ''src''
   \<and> buckets (store (handler (example_event ''Delete'' ''src'' ''ver'') example_context example_store)) ''src''
       = Some \<lparr>Status = Unversioned, entries = []\<rparr>
   \<and> buckets (store (handler (example_event ''Delete'' ''src'' ''ver'') example_context example_store)) ''src''
       \<noteq> buckets example_store ''src''"
  by (simp add: handler_of_try(1) handler_try_def example_event_def delete_objects_def
        s3_delete_objects_def example_store_def delete_key_def remove_version_def api_def
        set_bucket_def)

text \<open>
  Claim C9 as amended. For a \<^verbatim>\<open>Delete\<close> event whose source container is not its
  destination container: the source container is after the run as it was before, and so
  is every container other than the destination; in the destination the versioning
  status and all entries under keys other than prefix + name stay as they were; the one
  request made is the batch delete on the destination; and the run does not depend on
  which container the event names as source.
\<close>

theorem delete_leaves_source:
  assumes "SourceBucket (ResourceProperties event) = Some sb"
    and "DestBucket (ResourceProperties event) = Some db"
    and "Prefix (ResourceProperties event) = Some pre"
    and "Objects (ResourceProperties event) = Some objs"
    and "RequestType event = ''Delete''"
    and "sb \<noteq> db"
  shows "buckets (store (handler event context s)) sb = buckets s sb
       \<and> (\<forall>b. b \<noteq> db \<longrightarrow> buckets (store (handler event context s)) b = buckets s b)
       \<and> map_option (outside (set (keys_of pre objs))) (buckets (store (handler event context s)) db)
           = map_option (outside (set (keys_of pre objs))) (buckets s db)
       \<and> calls_made s (store (handler event context s)) = [DeleteObjects db (keys_of pre objs)]
       \<and> (\<forall>sb'. handler (event\<lparr>ResourceProperties := (ResourceProperties event)\<lparr>SourceBucket := Some sb'\<rparr>\<rparr>)
                    context s = handler event context s)"
proof -
  have st: "store (handler event context s) = snd (s3_delete_objects db (keys_of pre objs) s)"
    using handler_try_present [OF assms(1-4)] assms(5)
    by (simp add: handler_of_try(1) delete_objects_def keys_of_def)
  show ?thesis
    unfolding st
    using assms(6) handler_ignores_source [OF assms(5) assms(1)]
    by (simp add: s3_delete_objects_other s3_delete_objects_outside s3_delete_objects_calls
          calls_made_def)
qed

theorem delete_leaves_source_witness:
  "SourceBucket (ResourceProperties (example_event ''Delete'' ''dst'' ''ver'')) = Some ''src''
   \<and> DestBucket (ResourceProperties (example_event ''Delete'' ''dst'' ''ver'')) = Some ''dst''
   \<and> Prefix (ResourceProperties (example_event ''Delete'' ''dst'' ''ver'')) = Some ''p/''
   \<and> Objects (ResourceProperties (example_event ''Delete'' ''dst'' ''ver'')) = Some [''a'', ''b'']
   \<and> RequestType (example_event ''Delete'' ''dst'' ''ver'') = ''Delete''
   \<and> ''src'' \<noteq> ''dst''
   \<and> buckets (store (handler (example_event ''Delete'' ''dst'' ''ver'') example_context example_store)) ''src''
       = buckets example_store ''src''
   \<and> calls_made example_store
        (store (handler (example_event ''Delete'' ''dst'' ''ver'') example_context example_store))
       = [DeleteObjects ''dst'' [''p/a'', ''p/b'']]"
proof -
  let ?e = "example_event ''Delete'' ''dst'' ''ver''"
  have h1: "SourceBucket (ResourceProperties ?e) = Some ''src''"
    and h2: "DestBucket (ResourceProperties ?e) = Some ''dst''"
    and h3: "Prefix (ResourceProperties ?e) = Some ''p/''"
    and h4: "Objects (ResourceProperties ?e) = Some [''a'', ''b'']"
    and h5: "RequestType ?e = ''Delete''"
    by (simp_all add: example_event_def)
  have h6: "''src'' \<noteq> ''dst''" by simp
  note r = delete_leaves_source [OF h1 h2 h3 h4 h5 h6, of example_context example_store]
  have c1: "buckets (store (handler ?e example_context example_store)) ''src'' = buckets example_store ''src''"
    using r by blast
  have c2: "calls_made example_store (store (handler ?e example_context example_store))
       = [DeleteObjects ''dst'' [''p/a'', ''p/b'']]"
    using r by (simp add: keys_of_def)
  show ?thesis
    using h1 h2 h3 h4 h5 c1 c2 by simp
qed

lemma without_null_insert:
  "Key e \<in> K \<Longrightarrow> VersionId e = NullVersion \<Longrightarrow> without_null K (insert_newest e es) = without_null K es"
  by (simp add: without_null_def filter_insert_newest)

lemma without_null_remove:
  "k \<in> K \<Longrightarrow> without_null K (remove_version k NullVersion es) = without_null K es"
  unfolding without_null_def by (rule filter_remove_version) auto

lemma put_entry_unversioned:
  assumes "k \<in> K" and "st = Unversioned"
  shows "without_null K (fst (put_entry st k d n es)) = without_null K es"
  using assms by (simp add: put_entry_def without_null_insert without_null_remove)

lemma delete_key_unversioned:
  "delete_key Unversioned k n es = (remove_version k NullVersion es, n)"
  by (simp add: delete_key_def)

lemma delete_keys_unversioned:
  "delete_keys Unversioned ks n es = (without_null (set ks) es, n)"
proof (induction ks arbitrary: es)
  case Nil
  then show ?case by (simp add: without_null_def)
next
  case (Cons k ks)
  have "without_null (set ks) (remove_version k NullVersion es) = without_null (set (k # ks)) es"
    unfolding without_null_def remove_version_def filter_filter
    by (rule filter_cong) auto
  then show ?case
    by (simp add: delete_key_unversioned Cons.IH)
qed

lemma copy_object_buckets:
  assumes "buckets s db = Some bk"
  shows "buckets (snd (copy_object sb sk db dk s)) = buckets s
       \<or> (\<exists>d es n. put_entry (Status bk) dk d (version_counter s) (entries bk) = (es, n)
               \<and> buckets (snd (copy_object sb sk db dk s)) = (buckets s)(db \<mapsto> bk\<lparr>entries := es\<rparr>))"
  using assms
  by (auto simp add: copy_object_def api_def set_bucket_def split: option.splits prod.splits)

lemma copy_object_dest:
  assumes "buckets s db = Some bk"
    and "Status bk = Unversioned"
    and "dk \<in> K"
  shows "\<exists>es'. buckets (snd (copy_object sb sk db dk s)) = (buckets s)(db \<mapsto> bk\<lparr>entries := es'\<rparr>)
             \<and> without_null K es' = without_null K (entries bk)"
  using copy_object_buckets [OF assms(1), of sb sk dk]
proof
  assume "buckets (snd (copy_object sb sk db dk s)) = buckets s"
  moreover have "buckets s = (buckets s)(db \<mapsto> bk\<lparr>entries := entries bk\<rparr>)"
    using assms(1) by (simp add: fun_upd_idem)
  ultimately have "buckets (snd (copy_object sb sk db dk s)) = (buckets s)(db \<mapsto> bk\<lparr>entries := entries bk\<rparr>)"
    by simp
  then show ?thesis by blast
next
  assume "\<exists>d es n. put_entry (Status bk) dk d (version_counter s) (entries bk) = (es, n)
               \<and> buckets (snd (copy_object sb sk db dk s)) = (buckets s)(db \<mapsto> bk\<lparr>entries := es\<rparr>)"
  then obtain d es n where p: "put_entry (Status bk) dk d (version_counter s) (entries bk) = (es, n)"
    and b: "buckets (snd (copy_object sb sk db dk s)) = (buckets s)(db \<mapsto> bk\<lparr>entries := es\<rparr>)"
    by blast
  have "without_null K es = without_null K (entries bk)"
    using put_entry_unversioned [OF assms(3) assms(2), of d "version_counter s" "entries bk"] p
    by simp
  with b show ?thesis by blast
qed

lemma copy_objects_dest:
  assumes "buckets s db = Some bk"
    and "Status bk = Unversioned"
    and "set (keys_of pre objs) \<subseteq> K"
  shows "\<exists>es'. buckets (snd (copy_objects sb db pre objs s)) = (buckets s)(db \<mapsto> bk\<lparr>entries := es'\<rparr>)
             \<and> without_null K es' = without_null K (entries bk)"
  using assms
proof (induction objs arbitrary: s bk)
  case Nil
  have "buckets s = (buckets s)(db \<mapsto> bk\<lparr>entries := entries bk\<rparr>)"
    using Nil.prems(1) by (simp add: fun_upd_idem)
  then have "buckets (snd (copy_objects sb db pre [] s)) = (buckets s)(db \<mapsto> bk\<lparr>entries := entries bk\<rparr>)"
    by (simp add: copy_objects_def)
  then show ?case by blast
next
  case (Cons name objs)
  obtain r s1 where step: "copy_object sb (pre @ name) db (pre @ name) s = (r, s1)"
    by (cases "copy_object sb (pre @ name) db (pre @ name) s")
  have k: "pre @ name \<in> K" using Cons.prems(3) by (simp add: keys_of_def)
  obtain es1 where es1: "buckets s1 = (buckets s)(db \<mapsto> bk\<lparr>entries := es1\<rparr>)"
      "without_null K es1 = without_null K (entries bk)"
    using copy_object_dest [OF Cons.prems(1,2) k, of sb "pre @ name"] step by auto
  show ?case
  proof (cases r)
    case (Inl e)
    then have "copy_objects sb db pre (name # objs) s = (Inl e, s1)"
      by (simp add: copy_objects_def step)
    then show ?thesis using es1 by auto
  next
    case (Inr u)
    then have run: "copy_objects sb db pre (name # objs) s = copy_objects sb db pre objs s1"
      by (simp add: copy_objects_def step)
    have b1: "buckets s1 db = Some (bk\<lparr>entries := es1\<rparr>)" by (simp add: es1(1))
    have st1: "Status (bk\<lparr>entries := es1\<rparr>) = Unversioned" using Cons.prems(2) by simp
    have sub: "set (keys_of pre objs) \<subseteq> K" using Cons.prems(3) by (simp add: keys_of_def)
    obtain es' where es': "buckets (snd (copy_objects sb db pre objs s1))
          = (buckets s1)(db \<mapsto> bk\<lparr>entries := es1\<rparr>\<lparr>entries := es'\<rparr>)"
        "without_null K es' = without_null K (entries (bk\<lparr>entries := es1\<rparr>))"
      using Cons.IH [OF b1 st1 sub] by blast
    have "buckets (snd (copy_objects sb db pre (name # objs) s)) = (buckets s)(db \<mapsto> bk\<lparr>entries := es'\<rparr>)"
      by (simp add: run es'(1) es1(1))
    moreover have "without_null K es' = without_null K (entries bk)"
      using es'(2) es1(2) by simp
    ultimately show ?thesis by blast
  qed
qed

lemma without_null_absent:
  "\<forall>e \<in> set es. Key e \<notin> K \<Longrightarrow> without_null K es = es"
  by (simp add: without_null_def)

lemma s3_delete_objects_unversioned:
  assumes "buckets s b = Some bk"
    and "Status bk = Unversioned"
    and "ks \<noteq> []"
    and "length ks \<le> 1000"
  shows "fst (s3_delete_objects b ks s) = Inr ()"
    and "buckets (snd (s3_delete_objects b ks s))
           = (buckets s)(b \<mapsto> bk\<lparr>entries := without_null (set ks) (entries bk)\<rparr>)"
  using assms
  by (simp_all add: s3_delete_objects_def delete_keys_unversioned set_bucket_def api_def)

text \<open>
  In a destination with versioning enabled the copies add versions and the batch delete
  adds delete markers on top of them, so the entries are not those from before, even when
  none of the keys was there: here for the bucket \<^verbatim>\<open>ver\<close> of the example store.
\<close>

lemma create_delete_in_versioned_destination:
  "map_option entries
     (buckets (store (handler (example_event ''Delete'' ''ver'' ''ver'') example_context
                 (store (handler (example_event ''Create'' ''ver'' ''ver'') example_context example_store))))
        ''ver'')
     = Some [DeleteMarker ''k'' (VersionNo 7), Version ''k'' (VersionNo 5) ''x'',
             Version ''j'' (VersionNo 3) ''y'',
             DeleteMarker ''p/a'' (VersionNo 10), Version ''p/a'' (VersionNo 8) ''A'',
             DeleteMarker ''p/b'' (VersionNo 11), Version ''p/b'' (VersionNo 9) ''B'']"
  by (simp add: handler_of_try(1) handler_try_def example_event_def
        copy_objects_def copy_object_def delete_objects_def s3_delete_objects_def
        example_store_def current_object_def put_entry_def delete_key_def
        api_def set_bucket_def)

text \<open>
  Claim C2 says that a \<^verbatim>\<open>Create\<close> followed by a \<^verbatim>\<open>Delete\<close> leaves the destination as
  it was before the \<^verbatim>\<open>Create\<close>, whatever it held. When the destination already holds
  an object under one of the keys, the copy overwrites it and the delete removes it: in
  the example store the destination \<^verbatim>\<open>dst\<close> holds \<^verbatim>\<open>p/a\<close> before and nothing after.
\<close>

theorem create_delete_loses_object:
  "[''a'', ''b''] \<noteq> ([] :: string list)
   \<and> buckets example_store ''dst''
       = Some \<lparr>Status = Unversioned, entries = [Version ''p/a'' NullVersion ''old'']\<rparr>
   \<and> map body_Status (responses (handler (example_event ''Create'' ''dst'' ''ver'') example_context example_store))
       = [SUCCESS]
   \<and> buckets (store (handler (example_event ''Delete'' ''dst'' ''ver'') example_context
                 (store (handler (example_event ''Create'' ''dst'' ''ver'') example_context example_store))))
         ''dst''
       = Some \<lparr>Status = Unversioned, entries = []\<rparr>
   \<and> buckets (store (handler (example_event ''Delete'' ''dst'' ''ver'') example_context
                 (store (handler (example_event ''Create'' ''dst'' ''ver'') example_context example_store))))
         ''dst''
       \<noteq> buckets example_store ''dst''"
  by (simp add: handler_of_try(1,2) reported_def handler_try_def example_event_def
        copy_objects_def copy_object_def delete_objects_def s3_delete_objects_def
        example_store_def current_object_def put_entry_def delete_key_def remove_version_def
        api_def set_bucket_def)

text \<open>
  Claim C2 as amended. Let the destination be a bucket that was never versioned and that
  holds no entry under any of the keys prefix + name, and let the list have between 1 and
  1000 names. Then after a \<^verbatim>\<open>Create\<close> (whether all its copies succeed or not) and a
  \<^verbatim>\<open>Delete\<close> with the same properties, the \<^verbatim>\<open>Delete\<close> answers \<^verbatim>\<open>SUCCESS\<close> and every
  bucket, the destination among them, is exactly as before the \<^verbatim>\<open>Create\<close>.
\<close>

theorem create_then_delete_restores:
  assumes "SourceBucket (ResourceProperties create) = Some sb"
    and "DestBucket (ResourceProperties create) = Some db"
    and "Prefix (ResourceProperties create) = Some pre"
    and "Objects (ResourceProperties create) = Some objs"
    and "ResourceProperties delete = ResourceProperties create"
    and "RequestType create = ''Create''"
    and "RequestType delete = ''Delete''"
    and "buckets s db = Some bk"
    and "Status bk = Unversioned"
    and "\<forall>e \<in> set (entries bk). Key e \<notin> set (keys_of pre objs)"
    and "objs \<noteq> []"
    and "length objs \<le> 1000"
  shows "map body_Status (responses (handler delete context' (store (handler create context s)))) = [SUCCESS]
       \<and> buckets (store (handler delete context' (store (handler create context s)))) = buckets s"
proof -
  let ?K = "set (keys_of pre objs)"
  let ?s1 = "snd (copy_objects sb db pre objs s)"
  have s1: "store (handler create context s) = ?s1"
    using handler_try_present [OF assms(1-4)] assms(6) by (simp add: handler_of_try(1))
  obtain es' where es': "buckets ?s1 = (buckets s)(db \<mapsto> bk\<lparr>entries := es'\<rparr>)"
    "without_null ?K es' = without_null ?K (entries bk)"
    using copy_objects_dest [OF assms(8,9), of pre objs ?K sb] by blast
  have keep: "without_null ?K es' = entries bk"
    using es'(2) assms(10) by (simp add: without_null_absent)
  have b1: "buckets ?s1 db = Some (bk\<lparr>entries := es'\<rparr>)" by (simp add: es'(1))
  have st1: "Status (bk\<lparr>entries := es'\<rparr>) = Unversioned" using assms(9) by simp
  have ne: "keys_of pre objs \<noteq> []" and le: "length (keys_of pre objs) \<le> 1000"
    using assms(11,12) by (simp_all add: keys_of_def)
  have tried: "handler_try delete ?s1 = s3_delete_objects db (keys_of pre objs) ?s1"
    using handler_try_present [of delete sb db pre objs ?s1] assms(1-5,7)
    by (simp add: delete_objects_def keys_of_def)
  have ok: "fst (s3_delete_objects db (keys_of pre objs) ?s1) = Inr ()"
    by (rule s3_delete_objects_unversioned(1) [OF b1 st1 ne le])
  have "buckets (snd (s3_delete_objects db (keys_of pre objs) ?s1))
          = (buckets ?s1)(db \<mapsto> bk\<lparr>entries := es'\<rparr>\<lparr>entries := without_null ?K (entries (bk\<lparr>entries := es'\<rparr>))\<rparr>)"
    by (rule s3_delete_objects_unversioned(2) [OF b1 st1 ne le])
  also have "\<dots> = (buckets s)(db \<mapsto> bk)"
    by (simp add: es'(1) keep)
  also have "\<dots> = buckets s"
    using assms(8) by (simp add: fun_upd_idem)
  finally have restored: "buckets (snd (s3_delete_objects db (keys_of pre objs) ?s1)) = buckets s" .
  show ?thesis
    unfolding s1 by (simp add: handler_of_try(1,2) tried reported_def ok restored)
qed

theorem create_then_delete_restores_witness:
  "SourceBucket (ResourceProperties (example_event ''Create'' ''new'' ''ver'')) = Some ''src''
   \<and> DestBucket (ResourceProperties (example_event ''Create'' ''new'' ''ver'')) = Some ''new''
   \<and> Prefix (ResourceProperties (example_event ''Create'' ''new'' ''ver'')) = Some ''p/''
   \<and> Objects (ResourceProperties (example_event ''Create'' ''new'' ''ver'')) = Some [''a'', ''b'']
   \<and> ResourceProperties (example_event ''Delete'' ''new'' ''ver'')
       = ResourceProperties (example_event ''Create'' ''new'' ''ver'')
   \<and> RequestType (example_event ''Create'' ''new'' ''ver'') = ''Create''
   \<and> RequestType (example_event ''Delete'' ''new'' ''ver'') = ''Delete''
   \<and> buckets example_store ''new'' = Some \<lparr>Status = Unversioned, entries = []\<rparr>
   \<and> [''a'', ''b''] \<noteq> ([] :: string list)
   \<and> length [''a'', ''b''] \<le> (1000 :: nat)
   \<and> map body_Status (responses (handler (example_event ''Delete'' ''new'' ''ver'') example_context
         (store (handler (example_event ''Create'' ''new'' ''ver'') example_context example_store))))
       = [SUCCESS]
   \<and> buckets (store (handler (example_event ''Delete'' ''new'' ''ver'') example_context
         (store (handler (example_event ''Create'' ''new'' ''ver'') example_context example_store))))
       = buckets example_store"
proof -
  let ?c = "example_event ''Create'' ''new'' ''ver''"
  let ?d = "example_event ''Delete'' ''new'' ''ver''"
  let ?bk = "\<lparr>Status = Unversioned, entries = []\<rparr>"
  have h1: "SourceBucket (ResourceProperties ?c) = Some ''src''"
    and h2: "DestBucket (ResourceProperties ?c) = Some ''new''"
    and h3: "Prefix (ResourceProperties ?c) = Some ''p/''"
    and h4: "Objects (ResourceProperties ?c) = Some [''a'', ''b'']"
    and h5: "ResourceProperties ?d = ResourceProperties ?c"
    and h6: "RequestType ?c = ''Create''"
    and h7: "RequestType ?d = ''Delete''"
    by (simp_all add: example_event_def)
  have h8: "buckets example_store ''new'' = Some ?bk"
    by (simp add: example_store_def)
  have h9: "Status ?bk = Unversioned" by simp
  have h10: "\<forall>e \<in> set (entries ?bk). Key e \<notin> set (keys_of ''p/'' [''a'', ''b''])" by simp
  have h11: "[''a'', ''b''] \<noteq> ([] :: string list)" by simp
  have h12: "length [''a'', ''b''] \<le> (1000 :: nat)" by simp
  note r = create_then_delete_restores [OF h1 h2 h3 h4 h5 h6 h7 h8 h9 h10 h11 h12,
      of example_context example_context]
  show ?thesis
    using h1 h2 h3 h4 h5 h6 h7 h8 r by simp
qed

section \<open>Delivery of the response\<close>








end
